theory Spec2Isabelle
  imports Main "HOL-Library.Sublist"
begin

section \<open>Data model of the build-time template resolver\<close>

text \<open>
  The development embeds \<^verbatim>\<open>packages/compat/src/resolver-transform.ts\<close>:
  the class \<^verbatim>\<open>ScopeStack\<close>, the target functions and visitors of
  \<^verbatim>\<open>TemplateResolver\<close>. JavaScript strings are modelled as \<^typ>\<open>string\<close>,
  \<^verbatim>\<open>null\<close>/\<^verbatim>\<open>undefined\<close> results as \<^const>\<open>None\<close>, thrown exceptions as the
  left summand of a sum type, and the mutable members of the resolver as an explicit state
  record that every operation returns updated.
\<close>

subsection \<open>Source locations and syntax tree\<close>

type_synonym Loc = "(nat \<times> nat) \<times> (nat \<times> nat)"

text \<open>
  The node union \<^verbatim>\<open>ASTv1.Node\<close> of the template parser. The constructor arguments are the
  fields the resolver reads: \<^verbatim>\<open>PathExpression\<close> carries \<^verbatim>\<open>original\<close>, \<^verbatim>\<open>this\<close>,
  \<^verbatim>\<open>data\<close> and \<^verbatim>\<open>parts\<close>; call-like nodes carry \<^verbatim>\<open>path\<close>, \<^verbatim>\<open>params\<close> and
  \<^verbatim>\<open>hash\<close>; \<^verbatim>\<open>ElementNode\<close> carries \<^verbatim>\<open>tag\<close>, \<^verbatim>\<open>attributes\<close>, \<^verbatim>\<open>modifiers\<close>,
  \<^verbatim>\<open>children\<close>, \<^verbatim>\<open>comments\<close> and \<^verbatim>\<open>blockParams\<close>.
\<close>

datatype Node =
    Template "string list" "Node list"
  | Block "string list" "Node list"
  | MustacheStatement Node "Node list" Node Loc
  | BlockStatement Node "Node list" Node Node "Node option" Loc
  | ElementModifierStatement Node "Node list" Node Loc
  | ElementNode string "Node list" "Node list" "Node list" "Node list" "string list" Loc
  | AttrNode string Node Loc
  | TextNode string Loc
  | ConcatStatement "Node list" Loc
  | CommentStatement string Loc
  | MustacheCommentStatement string Loc
  | SubExpression Node "Node list" Node Loc
  | PathExpression string bool bool "string list" Loc
  | StringLiteral string Loc
  | BooleanLiteral bool Loc
  | NumberLiteral int Loc
  | NullLiteral Loc
  | UndefinedLiteral Loc
  | Hash "Node list" Loc
  | HashPair string Node Loc

fun node_loc :: "Node \<Rightarrow> Loc" where
  "node_loc (Template _ _) = ((0, 0), (0, 0))"
| "node_loc (Block _ _) = ((0, 0), (0, 0))"
| "node_loc (MustacheStatement _ _ _ l) = l"
| "node_loc (BlockStatement _ _ _ _ _ l) = l"
| "node_loc (ElementModifierStatement _ _ _ l) = l"
| "node_loc (ElementNode _ _ _ _ _ _ l) = l"
| "node_loc (AttrNode _ _ l) = l"
| "node_loc (TextNode _ l) = l"
| "node_loc (ConcatStatement _ l) = l"
| "node_loc (CommentStatement _ l) = l"
| "node_loc (MustacheCommentStatement _ l) = l"
| "node_loc (SubExpression _ _ _ l) = l"
| "node_loc (PathExpression _ _ _ _ l) = l"
| "node_loc (StringLiteral _ l) = l"
| "node_loc (BooleanLiteral _ l) = l"
| "node_loc (NumberLiteral _ l) = l"
| "node_loc (NullLiteral l) = l"
| "node_loc (UndefinedLiteral l) = l"
| "node_loc (Hash _ l) = l"
| "node_loc (HashPair _ _ l) = l"

subsection \<open>Rules and resolutions\<close>

text \<open>
  An entry of \<^verbatim>\<open>yieldsSafeComponents\<close> is a boolean or an object from field names to
  booleans; an entry of \<^verbatim>\<open>yieldsArguments\<close> is a string or an object from field names to
  strings. Objects are association lists read with \<^const>\<open>map_of\<close>; reading a missing
  property is \<^const>\<open>None\<close>.
\<close>

datatype SafeEntry = SafeBool bool | SafeMap "(string \<times> bool) list"

datatype ArgEntry = ArgName string | ArgMap "(string \<times> string) list"

datatype Disambiguation = AsComponent | AsHelper | AsData

text \<open>
  Modelled from the spec: the interface \<^verbatim>\<open>PreprocessedComponentRule\<close> is declared in
  \<^verbatim>\<open>dependency-rules.ts\<close>, which is not among the sources. Its fields are the ones the
  resolver reads, with the shapes given for Component Rule and Template Rule in the data
  model of the specification.
\<close>

record PreprocessedComponentRule =
  yieldsSafeComponents :: "SafeEntry list"
  rule_yieldsArguments :: "ArgEntry list"
  rule_argumentsAreComponents :: "string list"
  safeToIgnore :: bool
  safeInteriorPaths :: "string list"
  disambiguate :: "string \<rightharpoonup> Disambiguation"

record ComponentResolution =
  specifier :: string
  yieldsComponents :: "SafeEntry list"
  yieldsArguments :: "ArgEntry list"
  argumentsAreComponents :: "string list"
  nameHint :: string

record ResolutionFail =
  message :: string
  detail :: string
  loc :: Loc

text \<open>
  \<^verbatim>\<open>Helper\<close> and \<^verbatim>\<open>Modifier\<close> carry specifier and name hint, in that order.
\<close>

datatype Resolution =
    Component ComponentResolution
  | Helper string string
  | Modifier string string
  | Error ResolutionFail

subsection \<open>Scope stack entries\<close>

text \<open>
  The \<^verbatim>\<open>exit\<close> member of a marker is a closure. It is kept in defunctionalised form: the
  visitor that created it, the name it captured, and the address of the node whose
  attributes (or hash pairs) it reads when it fires. The nodes captured by closures live
  in a store of the resolver state, because child visitors rewrite them in place between
  the creation of the closure and its call.
\<close>

datatype ExitClosure =
    BlockStatementExit string nat
  | ElementNodeExit nat

record ComponentBlockMarker =
  resolution :: ComponentResolution
  live_argumentsAreComponents :: "string list"
  exit :: ExitClosure

datatype ScopeEntry =
    BlockParams "string list"
  | Marker ComponentBlockMarker

section \<open>JavaScript library functions\<close>

text \<open>\<^verbatim>\<open>String.prototype.split\<close> with a one-character separator; the result is never empty.\<close>

fun split :: "char \<Rightarrow> string \<Rightarrow> string list" where
  "split sep [] = [[]]"
| "split sep (c # cs) =
     (if c = sep then [] # split sep cs
      else (case split sep cs of
              [] \<Rightarrow> [[c]]
            | p # ps \<Rightarrow> (c # p) # ps))"

text \<open>\<^verbatim>\<open>Array.prototype.indexOf\<close>; \<^const>\<open>None\<close> stands for \<^verbatim>\<open>-1\<close>.\<close>

fun indexOf :: "'a list \<Rightarrow> 'a \<Rightarrow> nat option" where
  "indexOf [] x = None"
| "indexOf (y # ys) x =
     (if y = x then Some 0
      else (case indexOf ys x of None \<Rightarrow> None | Some i \<Rightarrow> Some (Suc i)))"

text \<open>Indexing an array: out of range is \<^verbatim>\<open>undefined\<close>.\<close>

definition at_index :: "'a list \<Rightarrow> nat \<Rightarrow> 'a option" where
  "at_index xs i = (if i < length xs then Some (xs ! i) else None)"

section \<open>ScopeStack\<close>

text \<open>
  The stack is an array used with \<^verbatim>\<open>unshift\<close>/\<^verbatim>\<open>shift\<close>: index 0 is the most recently
  entered entry.
\<close>

definition push :: "string list \<Rightarrow> ScopeEntry list \<Rightarrow> ScopeEntry list" where
  "push blockParams stack = BlockParams blockParams # stack"

definition enteringComponentBlock ::
    "ComponentResolution \<Rightarrow> ExitClosure \<Rightarrow> ScopeEntry list \<Rightarrow> ScopeEntry list" where
  "enteringComponentBlock res ex stack =
     Marker \<lparr> resolution = res,
              live_argumentsAreComponents = argumentsAreComponents res,
              exit = ex \<rparr> # stack"

fun inScope :: "string \<Rightarrow> ScopeEntry list \<Rightarrow> bool" where
  "inScope name [] = False"
| "inScope name (BlockParams blockParams # rest) =
     (if name \<in> set blockParams then True else inScope name rest)"
| "inScope name (Marker m # rest) = inScope name rest"

text \<open>
  The body of the loop of \<^verbatim>\<open>safeComponentInScope\<close> once \<^verbatim>\<open>positionalIndex\<close> is found:
  it returns the answer and the marker, whose working copy of
  \<^verbatim>\<open>argumentsAreComponents\<close> may have received a source argument.
\<close>

definition checkMarker ::
    "string list \<Rightarrow> nat \<Rightarrow> ComponentBlockMarker \<Rightarrow> bool \<times> ComponentBlockMarker" where
  "checkMarker parts positionalIndex next =
     (if length parts = 1 then
        (case at_index (yieldsComponents (resolution next)) positionalIndex of
           Some (SafeBool True) \<Rightarrow> (True, next)
         | _ \<Rightarrow>
           (case at_index (yieldsArguments (resolution next)) positionalIndex of
              Some (ArgName sourceArg) \<Rightarrow>
                (True, next\<lparr> live_argumentsAreComponents :=
                               live_argumentsAreComponents next @ [sourceArg] \<rparr>)
            | _ \<Rightarrow> (False, next)))
      else
        (case at_index (yieldsComponents (resolution next)) positionalIndex of
           Some (SafeMap entry) \<Rightarrow> (map_of entry (parts ! 1) = Some True, next)
         | _ \<Rightarrow>
           (case at_index (yieldsArguments (resolution next)) positionalIndex of
              Some (ArgMap argsEntry) \<Rightarrow>
                (case map_of argsEntry (parts ! 1) of
                   Some sourceArg \<Rightarrow>
                     (True, next\<lparr> live_argumentsAreComponents :=
                                    live_argumentsAreComponents next @ [sourceArg] \<rparr>)
                 | None \<Rightarrow> (False, next))
            | _ \<Rightarrow> (False, next))))"

text \<open>
  The loop over adjacent pairs \<^verbatim>\<open>(stack[i], stack[i + 1])\<close>, from index 0.
\<close>

fun scanStack :: "string list \<Rightarrow> ScopeEntry list \<Rightarrow> bool \<times> ScopeEntry list" where
  "scanStack parts (BlockParams blockParams # Marker next # rest) =
     (case indexOf blockParams (parts ! 0) of
        None \<Rightarrow>
          (let (r, s) = scanStack parts (Marker next # rest)
           in (r, BlockParams blockParams # s))
      | Some positionalIndex \<Rightarrow>
          (let (r, next') = checkMarker parts positionalIndex next
           in (r, BlockParams blockParams # Marker next' # rest)))"
| "scanStack parts (here # rest) =
     (let (r, s) = scanStack parts rest in (r, here # s))"
| "scanStack parts [] = (False, [])"

definition safeComponentInScope :: "string \<Rightarrow> ScopeEntry list \<Rightarrow> bool \<times> ScopeEntry list" where
  "safeComponentInScope name stack =
     (let parts = split (CHR ''.'') name
      in if length parts > 2 then (False, stack) else scanStack parts stack)"

text \<open>
  The search part of the loop on its own: the first adjacent pair of a parameter frame and
  a marker whose frame binds \<open>root\<close>, as the position of \<open>root\<close> in the frame and the
  marker.
\<close>

fun matchedMarker :: "string \<Rightarrow> ScopeEntry list \<Rightarrow> (nat \<times> ComponentBlockMarker) option" where
  "matchedMarker root (BlockParams blockParams # Marker next # rest) =
     (case indexOf blockParams root of
        None \<Rightarrow> matchedMarker root (Marker next # rest)
      | Some positionalIndex \<Rightarrow> Some (positionalIndex, next))"
| "matchedMarker root (here # rest) = matchedMarker root rest"
| "matchedMarker root [] = None"

subsection \<open>Example markers\<close>

definition plain_resolution :: "string \<Rightarrow> ComponentResolution" where
  "plain_resolution name =
     \<lparr> specifier = ''#embroider_compat/components/'' @ name,
       yieldsComponents = [], yieldsArguments = [], argumentsAreComponents = [],
       nameHint = name @ ''_'' \<rparr>"

definition marker_unsafe :: ComponentBlockMarker where
  "marker_unsafe =
     \<lparr> resolution = plain_resolution ''inner-thing'',
       live_argumentsAreComponents = [], exit = ElementNodeExit 0 \<rparr>"

definition marker_safe :: ComponentBlockMarker where
  "marker_safe =
     \<lparr> resolution = (plain_resolution ''outer-thing'')\<lparr> yieldsComponents := [SafeBool True] \<rparr>,
       live_argumentsAreComponents = [], exit = ElementNodeExit 1 \<rparr>"

definition marker_forwarding :: ComponentBlockMarker where
  "marker_forwarding =
     \<lparr> resolution = (plain_resolution ''form-thing'')
         \<lparr> yieldsComponents := [SafeBool True],
           yieldsArguments := [ArgMap [(''title'', ''titleComponent'')]] \<rparr>,
       live_argumentsAreComponents = [], exit = ElementNodeExit 0 \<rparr>"

section \<open>TemplateResolver\<close>

subsection \<open>Configuration, environment and state\<close>

record UserConfig =
  staticHelpers :: bool
  staticModifiers :: bool
  staticComponents :: bool
  allowUnsafeDynamicComponents :: bool

record AuditMessage =
  audit_message :: string
  audit_filename :: string
  audit_detail :: string
  audit_loc :: Loc
  audit_source :: string

text \<open>
  The result of the memoized getter \<^verbatim>\<open>rules\<close>: the rules keyed by file name and the rules
  keyed by dasherized component name. A resolver holds the index the getter returned; the
  getter itself, with \<^verbatim>\<open>standardDasherize\<close>, is \<open>rulesGetter\<close> below.
\<close>

record Rules =
  files :: "string \<rightharpoonup> PreprocessedComponentRule"
  components :: "string \<rightharpoonup> PreprocessedComponentRule"

text \<open>
  The immutable members of a \<^verbatim>\<open>TemplateResolver\<close>: \<^verbatim>\<open>env.filename\<close>, \<^verbatim>\<open>env.contents\<close>,
  \<^verbatim>\<open>env.locals\<close>, \<^verbatim>\<open>config.appRoot\<close>, \<^verbatim>\<open>config.options\<close>, whether
  \<^verbatim>\<open>globalThis.embroider_audit\<close> was registered when the resolver was constructed, and the
  compiled rules. The library functions \<^verbatim>\<open>camelCase\<close> (lodash), \<^verbatim>\<open>dasherize\<close>
  (\<^verbatim>\<open>dasherize-component-name.ts\<close>) and \<^verbatim>\<open>env.meta.jsutils.bindImport\<close> (which maps a
  specifier and a name hint to the bound local identifier) are not among the sources and
  are parameters.
\<close>

record Resolver =
  filename :: string
  contents :: string
  locals :: "string list option"
  appRoot :: string
  options :: UserConfig
  auditHandler :: bool
  rules :: Rules
  camelCase :: "string \<Rightarrow> string"
  dasherize :: "string \<Rightarrow> string"
  bindImport :: "string \<Rightarrow> string \<Rightarrow> string"

text \<open>
  What a visitor can throw: the error built by \<^verbatim>\<open>reportError\<close> (its message, \<^verbatim>\<open>loc\<close> and
  \<^verbatim>\<open>moduleName\<close>; \<^verbatim>\<open>isTemplateResolverError\<close> is true for exactly this constructor), and
  the \<^verbatim>\<open>TypeError\<close> of reading a property of \<^verbatim>\<open>undefined\<close>.
\<close>

datatype error =
    TemplateResolverError string Loc string
  | TypeError

text \<open>
  The mutable state: the scope stack, the messages handed to the audit handler, the
  imports bound through \<^verbatim>\<open>bindImport\<close> (specifier and name hint, in call order), and the
  store of the nodes captured by exit closures.
\<close>

record State =
  scopeStack :: "ScopeEntry list"
  audit :: "AuditMessage list"
  bound :: "(string \<times> string) list"
  captured :: "Node list"

definition builtInKeywords :: "string list" where
  "builtInKeywords =
     [''-get-dynamic-var'', ''-in-element'', ''-with-dynamic-vars'', ''action'', ''array'',
      ''component'', ''concat'', ''debugger'', ''each-in'', ''each'', ''fn'', ''get'',
      ''has-block-params'', ''has-block'', ''hasBlock'', ''hasBlockParams'', ''hash'',
      ''helper'', ''if'', ''in-element'', ''input'', ''let'', ''link-to'', ''loc'', ''log'',
      ''modifier'', ''mount'', ''mut'', ''on'', ''outlet'', ''partial'', ''query-params'',
      ''readonly'', ''textarea'', ''unbound'', ''unique-id'', ''unless'', ''with'', ''yield'']"

subsection \<open>Reporting errors\<close>

definition humanReadableFile :: "Resolver \<Rightarrow> string \<Rightarrow> string" where
  "humanReadableFile r file =
     (let appRoot' = (if \<not> suffix ''/'' (appRoot r) then appRoot r @ ''/'' else appRoot r)
      in if prefix appRoot' file then drop (length appRoot') file else file)"

definition reportError :: "Resolver \<Rightarrow> ResolutionFail \<Rightarrow> State \<Rightarrow> error + State" where
  "reportError r dep st =
     (if \<not> auditHandler r \<and> \<not> allowUnsafeDynamicComponents (options r) then
        Inl (TemplateResolverError
               (message dep @ '': '' @ detail dep @ '' in '' @ humanReadableFile r (filename r))
               (loc dep) (filename r))
      else if auditHandler r then
        Inr (st\<lparr> audit := audit st @
                   [\<lparr> audit_message = message dep, audit_filename = filename r,
                      audit_detail = detail dep, audit_loc = loc dep,
                      audit_source = contents r \<rparr>] \<rparr>)
      else Inr st)"

subsection \<open>Toggles and rules\<close>

definition staticComponentsEnabled :: "Resolver \<Rightarrow> bool" where
  "staticComponentsEnabled r = (staticComponents (options r) \<or> auditHandler r)"

definition staticHelpersEnabled :: "Resolver \<Rightarrow> bool" where
  "staticHelpersEnabled r = (staticHelpers (options r) \<or> auditHandler r)"

definition staticModifiersEnabled :: "Resolver \<Rightarrow> bool" where
  "staticModifiersEnabled r = (staticModifiers (options r) \<or> auditHandler r)"

definition isIgnoredComponent :: "Resolver \<Rightarrow> string \<Rightarrow> bool" where
  "isIgnoredComponent r dasherizedName =
     (case components (rules r) dasherizedName of
        None \<Rightarrow> False
      | Some rule \<Rightarrow> safeToIgnore rule)"

definition findRules :: "Resolver \<Rightarrow> string \<Rightarrow> PreprocessedComponentRule option" where
  "findRules r absPath = files (rules r) absPath"

definition nameHintOf :: "string \<Rightarrow> string" where
  "nameHintOf path = last (split (CHR ''@'') path) @ ''_''"

subsection \<open>Target functions\<close>

definition targetComponent :: "Resolver \<Rightarrow> string \<Rightarrow> ComponentResolution option" where
  "targetComponent r name =
     (if \<not> staticComponentsEnabled r then None
      else if name \<in> set builtInKeywords then None
      else if isIgnoredComponent r name then None
      else
        (let componentRules = components (rules r) name
         in Some \<lparr> specifier = ''#embroider_compat/components/'' @ name,
                    yieldsComponents =
                      (case componentRules of Some c \<Rightarrow> yieldsSafeComponents c | None \<Rightarrow> []),
                    yieldsArguments =
                      (case componentRules of Some c \<Rightarrow> rule_yieldsArguments c | None \<Rightarrow> []),
                    argumentsAreComponents =
                      (case componentRules of
                         Some c \<Rightarrow> rule_argumentsAreComponents c | None \<Rightarrow> []),
                    nameHint = nameHintOf name \<rparr>))"

datatype ComponentLocator = Literal string | Path string | Other

definition impliedMessage :: "(string \<times> string) option \<Rightarrow> string" where
  \<open>impliedMessage impliedBecause =
     (case impliedBecause of
        Some (componentName, argumentName) \<Rightarrow>
          ''argument "'' @ argumentName @ ''" to component "'' @ componentName
            @ ''" is treated as a component, but the value you'' @ [CHR 0x27]
            @ ''re passing is dynamic''
      | None \<Rightarrow> ''Unsafe dynamic component'')\<close>

definition targetComponentHelper ::
    "Resolver \<Rightarrow> ComponentLocator \<Rightarrow> Loc \<Rightarrow> (string \<times> string) option \<Rightarrow> Resolution option" where
  "targetComponentHelper r component l impliedBecause =
     (if \<not> staticComponentsEnabled r then None
      else
        (let msg = impliedMessage impliedBecause
         in case component of
              Other \<Rightarrow>
                Some (Error \<lparr> message = msg,
                              detail = ''cannot statically analyze this expression'',
                              loc = l \<rparr>)
            | Path p \<Rightarrow>
                (case findRules r (filename r) of
                   Some ownComponentRules \<Rightarrow>
                     if p \<in> set (safeInteriorPaths ownComponentRules) then None
                     else Some (Error \<lparr> message = msg, detail = p, loc = l \<rparr>)
                 | None \<Rightarrow> Some (Error \<lparr> message = msg, detail = p, loc = l \<rparr>))
            | Literal p \<Rightarrow> map_option Component (targetComponent r p)))"

definition targetHelper :: "Resolver \<Rightarrow> string \<Rightarrow> Resolution option" where
  "targetHelper r path =
     (if \<not> staticHelpersEnabled r then None
      else if path \<in> set builtInKeywords then None
      else Some (Helper (''#embroider_compat/helpers/'' @ path) (nameHintOf path)))"

text \<open>ASCII upper case of one character, for \<^verbatim>\<open>word[0].toUpperCase()\<close>.\<close>

definition toUpperCase :: "char \<Rightarrow> char" where
  "toUpperCase c =
     (case map_of (zip ''abcdefghijklmnopqrstuvwxyz'' ''ABCDEFGHIJKLMNOPQRSTUVWXYZ'') c of
        Some u \<Rightarrow> u
      | None \<Rightarrow> c)"

text \<open>
  \<^verbatim>\<open>capitalize\<close> reads \<^verbatim>\<open>word[0]\<close>, which is \<^verbatim>\<open>undefined\<close> for the empty word: the call of
  \<^verbatim>\<open>toUpperCase\<close> then throws.
\<close>

definition capitalize :: "string \<Rightarrow> error + string" where
  "capitalize word =
     (case word of
        [] \<Rightarrow> Inl TypeError
      | c # cs \<Rightarrow> Inr (toUpperCase c # cs))"

definition ambiguousDetail :: "string \<Rightarrow> string \<Rightarrow> string" where
  \<open>ambiguousDetail path capitalized =
     ''"{{'' @ path @ ''}}" is ambiguous and could mean "{{this.'' @ path
       @ ''}}" or component "<'' @ capitalized @ '' />" or helper "{{ ('' @ path
       @ '') }}". Change it to one of those unambigous forms, or use a "disambiguate" packageRule to work around the problem if its in third-party code you cannot easily fix.''\<close>

definition disagreeDetail :: "string \<Rightarrow> string \<Rightarrow> string" where
  \<open>disagreeDetail path capitalized =
     ''this use of "{{'' @ path @ ''}}" could be helper "{{ ('' @ path
       @ '') }}" or component "<'' @ capitalized
       @ '' />", and your settings for staticHelpers and staticComponents do not agree. Either switch to one of the unambiguous forms, or make staticHelpers and staticComponents agree, or use a "disambiguate" packageRule to work around the problem if its in third-party code you cannot easily fix.''\<close>

text \<open>
  \<^verbatim>\<open>ownComponentRules?.disambiguate[path]\<close> for the rules of the current file.
\<close>

definition ownDisambiguation :: "Resolver \<Rightarrow> string \<Rightarrow> Disambiguation option" where
  "ownDisambiguation r path =
     (case findRules r (filename r) of
        None \<Rightarrow> None
      | Some ownComponentRules \<Rightarrow> disambiguate ownComponentRules path)"

text \<open>
  \<^verbatim>\<open>targetHelperOrComponent\<close> calls \<^verbatim>\<open>reportError\<close> itself: its outcome is a thrown error,
  or the resolution it returns together with the state \<^verbatim>\<open>reportError\<close> left.
\<close>

definition targetHelperOrComponent ::
    "Resolver \<Rightarrow> string \<Rightarrow> Loc \<Rightarrow> bool \<Rightarrow> State \<Rightarrow> error + (Resolution option \<times> State)" where
  "targetHelperOrComponent r path l hasArgs st =
     (if (\<not> staticHelpersEnabled r \<and> \<not> staticComponentsEnabled r)
         \<or> path \<in> set builtInKeywords \<or> isIgnoredComponent r path
      then Inr (None, st)
      else
        (case ownDisambiguation r path of
           Some AsComponent \<Rightarrow> Inr (map_option Component (targetComponent r path), st)
         | Some AsHelper \<Rightarrow> Inr (targetHelper r path, st)
         | Some AsData \<Rightarrow> Inr (None, st)
         | None \<Rightarrow>
             if \<not> hasArgs \<and> CHR ''/'' \<notin> set path \<and> CHR ''@'' \<notin> set path then
               (case capitalize (camelCase r path) of
                  Inl e \<Rightarrow> Inl e
                | Inr capitalized \<Rightarrow>
                    (case reportError r
                            \<lparr> message = ''unsupported ambiguous syntax'',
                              detail = ambiguousDetail path capitalized,
                              loc = l \<rparr> st of
                       Inl e \<Rightarrow> Inl e
                     | Inr st' \<Rightarrow> Inr (None, st')))
             else if \<not> staticHelpersEnabled r \<or> \<not> staticComponentsEnabled r then
               (case capitalize (camelCase r path) of
                  Inl e \<Rightarrow> Inl e
                | Inr capitalized \<Rightarrow>
                    (case reportError r
                            \<lparr> message = ''unsupported ambiguity between helper and component'',
                              detail = disagreeDetail path capitalized,
                              loc = l \<rparr> st of
                       Inl e \<Rightarrow> Inl e
                     | Inr st' \<Rightarrow> Inr (None, st')))
             else
               (let componentRules = components (rules r) path
                in Inr (Some (Component
                     \<lparr> specifier = ''#embroider_compat/ambiguous/'' @ path,
                       yieldsComponents =
                         (case componentRules of
                            Some c \<Rightarrow> yieldsSafeComponents c | None \<Rightarrow> []),
                       yieldsArguments =
                         (case componentRules of
                            Some c \<Rightarrow> rule_yieldsArguments c | None \<Rightarrow> []),
                       argumentsAreComponents =
                         (case componentRules of
                            Some c \<Rightarrow> rule_argumentsAreComponents c | None \<Rightarrow> []),
                       nameHint = nameHintOf path \<rparr>), st))))"

definition targetElementModifier :: "Resolver \<Rightarrow> string \<Rightarrow> Resolution option" where
  "targetElementModifier r path =
     (if \<not> staticModifiersEnabled r then None
      else if path \<in> set builtInKeywords then None
      else Some (Modifier (''#embroider_compat/modifiers/'' @ path) (nameHintOf path)))"

definition targetDynamicModifier :: "Resolver \<Rightarrow> ComponentLocator \<Rightarrow> Loc \<Rightarrow> Resolution option" where
  "targetDynamicModifier r modifier l =
     (if \<not> staticModifiersEnabled r then None
      else (case modifier of
              Literal p \<Rightarrow> targetElementModifier r p
            | _ \<Rightarrow> Some (Error \<lparr> message = ''Unsafe dynamic modifier'',
                                  detail = ''cannot statically analyze this expression'',
                                  loc = l \<rparr>)))"

definition targetDynamicHelper :: "Resolver \<Rightarrow> ComponentLocator \<Rightarrow> Resolution option" where
  "targetDynamicHelper r helper =
     (if \<not> staticHelpersEnabled r then None
      else (case helper of Literal p \<Rightarrow> targetHelper r p | _ \<Rightarrow> None))"

definition handleDynamicModifier :: "Resolver \<Rightarrow> Node \<Rightarrow> Resolution option" where
  "handleDynamicModifier r param =
     (case param of
        StringLiteral v l \<Rightarrow> targetDynamicModifier r (Literal v) l
      | _ \<Rightarrow> None)"

definition handleDynamicHelper :: "Resolver \<Rightarrow> Node \<Rightarrow> Resolution option" where
  "handleDynamicHelper r param =
     (case param of
        StringLiteral v l \<Rightarrow> targetDynamicHelper r (Literal v)
      | _ \<Rightarrow> None)"

subsection \<open>Dynamic component arguments\<close>

fun pairs :: "Node \<Rightarrow> Node list" where
  "pairs (Hash ps _) = ps"
| "pairs _ = []"

text \<open>\<^verbatim>\<open>node.type === 'PathExpression' && node.original === name\<close>\<close>

fun isPathNamed :: "Node \<Rightarrow> string \<Rightarrow> bool" where
  "isPathNamed (PathExpression original _ _ _ _) name = (original = name)"
| "isPathNamed _ name = False"

text \<open>
  The end of \<^verbatim>\<open>handleComponentHelper\<close>, after the locator is chosen: a path locator is
  first looked up with \<^verbatim>\<open>safeComponentInScope\<close>, which may update a marker of the stack.
\<close>

definition resolveLocator ::
    "Resolver \<Rightarrow> ComponentLocator \<Rightarrow> Loc \<Rightarrow> (string \<times> string) option \<Rightarrow> State
      \<Rightarrow> Resolution option \<times> State" where
  "resolveLocator r locator l impliedBecause st =
     (case locator of
        Path p \<Rightarrow>
          (let (safe, stack') = safeComponentInScope p (scopeStack st)
           in if safe then (None, st\<lparr> scopeStack := stack' \<rparr>)
              else (targetComponentHelper r locator l impliedBecause,
                    st\<lparr> scopeStack := stack' \<rparr>))
      | _ \<Rightarrow> (targetComponentHelper r locator l impliedBecause, st))"

fun handleComponentHelper ::
    "Resolver \<Rightarrow> Node \<Rightarrow> (string \<times> string) option \<Rightarrow> State \<Rightarrow> Resolution option \<times> State" where
  "handleComponentHelper r (StringLiteral v l) impliedBecause st =
     resolveLocator r (Literal v) l impliedBecause st"
| "handleComponentHelper r (PathExpression original t d ps l) impliedBecause st =
     resolveLocator r (Path original) l impliedBecause st"
| "handleComponentHelper r (MustacheStatement path params hash l) impliedBecause st =
     (if pairs hash = [] \<and> params = [] then handleComponentHelper r path impliedBecause st
      else if isPathNamed path ''component'' then (None, st)
      else resolveLocator r Other l impliedBecause st)"
| "handleComponentHelper r (TextNode chars l) impliedBecause st =
     resolveLocator r (Literal chars) l impliedBecause st"
| "handleComponentHelper r (SubExpression path params hash l) impliedBecause st =
     (if isPathNamed path ''component'' then (None, st)
      else if isPathNamed path ''ensure-safe-component'' then (None, st)
      else resolveLocator r Other l impliedBecause st)"
| "handleComponentHelper r param impliedBecause st =
     resolveLocator r Other (node_loc param) impliedBecause st"

subsection \<open>Emitting a resolution\<close>

text \<open>
  \<^verbatim>\<open>env.syntax.builders\<close> of the template compiler: \<^verbatim>\<open>path(name)\<close> builds a path
  expression whose \<^verbatim>\<open>original\<close> is the name, \<^verbatim>\<open>mustache(id)\<close> a mustache statement with
  that path and no arguments. The resolver reads only the type and \<^verbatim>\<open>original\<close> of the
  nodes it has built.
\<close>

definition builders_path :: "string \<Rightarrow> Node" where
  "builders_path name = PathExpression name False False [name] ((0, 0), (0, 0))"

definition builders_mustache :: "Node \<Rightarrow> Node" where
  "builders_mustache newId =
     MustacheStatement newId [] (Hash [] ((0, 0), (0, 0))) ((0, 0), (0, 0))"

fun original :: "Node \<Rightarrow> string" where
  "original (PathExpression orig _ _ _ _) = orig"
| "original _ = []"

text \<open>The setters passed to \<^verbatim>\<open>emit\<close>: each takes the node and the new identifier.\<close>

fun setParam0 :: "Node \<Rightarrow> Node \<Rightarrow> Node" where
  "setParam0 (MustacheStatement p (x # xs) h l) newId = MustacheStatement p (newId # xs) h l"
| "setParam0 (BlockStatement p (x # xs) h b i l) newId = BlockStatement p (newId # xs) h b i l"
| "setParam0 (SubExpression p (x # xs) h l) newId = SubExpression p (newId # xs) h l"
| "setParam0 node newId = node"

fun setPath :: "Node \<Rightarrow> Node \<Rightarrow> Node" where
  "setPath (MustacheStatement p xs h l) newId = MustacheStatement newId xs h l"
| "setPath (BlockStatement p xs h b i l) newId = BlockStatement newId xs h b i l"
| "setPath (SubExpression p xs h l) newId = SubExpression newId xs h l"
| "setPath (ElementModifierStatement p xs h l) newId = ElementModifierStatement newId xs h l"
| "setPath node newId = node"

fun setTag :: "Node \<Rightarrow> Node \<Rightarrow> Node" where
  "setTag (ElementNode tag attrs mods children comments bps l) newId =
     ElementNode (original newId) attrs mods children comments bps l"
| "setTag node newId = node"

fun setValue :: "Node \<Rightarrow> Node \<Rightarrow> Node" where
  "setValue (AttrNode name v l) newId = AttrNode name (builders_mustache newId) l"
| "setValue (HashPair key v l) newId = HashPair key newId l"
| "setValue node newId = node"

definition emit ::
    "Resolver \<Rightarrow> Resolution option \<Rightarrow> (Node \<Rightarrow> Node \<Rightarrow> Node) \<Rightarrow> Node \<Rightarrow> State
      \<Rightarrow> error + (Node \<times> State)" where
  "emit r res setter node st =
     (case res of
        Some (Error dep) \<Rightarrow>
          (case reportError r dep st of
             Inl e \<Rightarrow> Inl e
           | Inr st' \<Rightarrow> Inr (node, st'))
      | Some (Component c) \<Rightarrow>
          Inr (setter node (builders_path (bindImport r (specifier c) (nameHint c))),
               st\<lparr> bound := bound st @ [(specifier c, nameHint c)] \<rparr>)
      | Some (Modifier spec hint) \<Rightarrow>
          Inr (setter node (builders_path (bindImport r spec hint)),
               st\<lparr> bound := bound st @ [(spec, hint)] \<rparr>)
      | Some (Helper spec hint) \<Rightarrow>
          Inr (setter node (builders_path (bindImport r spec hint)),
               st\<lparr> bound := bound st @ [(spec, hint)] \<rparr>)
      | None \<Rightarrow> Inr (node, st))"

text \<open>
  \<^verbatim>\<open>attributes.find\<close> in \<^verbatim>\<open>handleDynamicComponentArguments\<close>: an attribute node matches
  on \<^verbatim>\<open>'@' + name\<close>, any other node on its \<^verbatim>\<open>key\<close>, which only a hash pair has.
\<close>

fun attrMatches :: "string \<Rightarrow> Node \<Rightarrow> bool" where
  "attrMatches name (AttrNode n _ _) = (n = ''@'' @ name)"
| "attrMatches name (HashPair k _ _) = (k = name)"
| "attrMatches name _ = False"

fun attrValue :: "Node \<Rightarrow> Node" where
  "attrValue (AttrNode _ v _) = v"
| "attrValue (HashPair _ v _) = v"
| "attrValue node = node"

fun findIndex :: "('a \<Rightarrow> bool) \<Rightarrow> 'a list \<Rightarrow> nat option" where
  "findIndex P [] = None"
| "findIndex P (x # xs) =
     (if P x then Some 0
      else (case findIndex P xs of None \<Rightarrow> None | Some i \<Rightarrow> Some (Suc i)))"

text \<open>
  The loop over \<^verbatim>\<open>argumentsAreComponents\<close>. The attributes are nodes of the tree, which the
  setter updates in place: the function returns them as the loop left them.
\<close>

fun handleDynamicComponentArguments ::
    "Resolver \<Rightarrow> string \<Rightarrow> string list \<Rightarrow> Node list \<Rightarrow> State \<Rightarrow> error + (Node list \<times> State)" where
  "handleDynamicComponentArguments r componentName [] attributes st = Inr (attributes, st)"
| "handleDynamicComponentArguments r componentName (name # names) attributes st =
     (case findIndex (attrMatches name) attributes of
        None \<Rightarrow> handleDynamicComponentArguments r componentName names attributes st
      | Some i \<Rightarrow>
          (let attr = attributes ! i;
               (res, st1) = handleComponentHelper r (attrValue attr)
                              (Some (componentName, name)) st
           in case emit r res setValue attr st1 of
                Inl e \<Rightarrow> Inl e
              | Inr (attr', st2) \<Rightarrow>
                  handleDynamicComponentArguments r componentName names
                    (attributes[i := attr']) st2))"

subsection \<open>The visitor of mustache statements\<close>

fun isAttrNode :: "Node option \<Rightarrow> bool" where
  "isAttrNode (Some (AttrNode _ _ _)) = True"
| "isAttrNode _ = False"

fun setPairs :: "Node \<Rightarrow> Node list \<Rightarrow> Node" where
  "setPairs (MustacheStatement p xs (Hash ps hl) l) ps' = MustacheStatement p xs (Hash ps' hl) l"
| "setPairs (BlockStatement p xs (Hash ps hl) b i l) ps' = BlockStatement p xs (Hash ps' hl) b i l"
| "setPairs node ps' = node"

fun nodePath :: "Node \<Rightarrow> Node" where
  "nodePath (MustacheStatement p xs h l) = p"
| "nodePath (BlockStatement p xs h b i l) = p"
| "nodePath (SubExpression p xs h l) = p"
| "nodePath (ElementModifierStatement p xs h l) = p"
| "nodePath node = node"

text \<open>
  \<^verbatim>\<open>this.scopeStack.inScope(node.path.parts[0])\<close>: for a path with no parts the argument
  is \<^verbatim>\<open>undefined\<close>, which no frame contains.
\<close>

definition rootInScope :: "string list \<Rightarrow> ScopeEntry list \<Rightarrow> bool" where
  "rootInScope parts stack =
     (case at_index parts 0 of
        None \<Rightarrow> False
      | Some rootName \<Rightarrow> inScope rootName stack)"

text \<open>
  \<^verbatim>\<open>visitor.MustacheStatement.enter\<close>. The second argument is \<^verbatim>\<open>path.parent?.node\<close>. The
  result is the node as the visitor left it and the new state, or the error thrown.
\<close>

definition MustacheStatement_enter ::
    "Resolver \<Rightarrow> Node option \<Rightarrow> Node \<Rightarrow> State \<Rightarrow> error + (Node \<times> State)" where
  "MustacheStatement_enter r parent node st =
     (case node of
        MustacheStatement (PathExpression orig this data parts pl) params hash l \<Rightarrow>
          if rootInScope parts (scopeStack st) then Inr (node, st)
          else if this then Inr (node, st)
          else if length parts > 1 then Inr (node, st)
          else if prefix ''@'' orig then Inr (node, st)
          else if orig = ''component'' \<and> params \<noteq> [] then
            (let (res, st1) = handleComponentHelper r (params ! 0) None st
             in emit r res setParam0 node st1)
          else if orig = ''helper'' \<and> params \<noteq> [] then
            emit r (handleDynamicHelper r (params ! 0)) setParam0 node st
          else if isAttrNode parent then
            emit r (targetHelper r orig) setPath node st
          else
            (let hasArgs = (params \<noteq> [] \<or> pairs hash \<noteq> [])
             in case targetHelperOrComponent r orig pl hasArgs st of
                  Inl e \<Rightarrow> Inl e
                | Inr (res, st1) \<Rightarrow>
                    (case emit r res setPath node st1 of
                       Inl e \<Rightarrow> Inl e
                     | Inr (node1, st2) \<Rightarrow>
                         (case res of
                            Some (Component c) \<Rightarrow>
                              (case handleDynamicComponentArguments r
                                      (original (nodePath node1))
                                      (argumentsAreComponents c) (pairs hash) st2 of
                                 Inl e \<Rightarrow> Inl e
                               | Inr (ps', st3) \<Rightarrow> Inr (setPairs node1 ps', st3))
                          | _ \<Rightarrow> Inr (node1, st2))))
      | _ \<Rightarrow> Inr (node, st))"

subsection \<open>Exit closures and \<^verbatim>\<open>ScopeStack.pop\<close>\<close>

fun nodeHash :: "Node \<Rightarrow> Node" where
  "nodeHash (MustacheStatement p xs h l) = h"
| "nodeHash (BlockStatement p xs h b i l) = h"
| "nodeHash (SubExpression p xs h l) = h"
| "nodeHash (ElementModifierStatement p xs h l) = h"
| "nodeHash node = node"

fun nodeTag :: "Node \<Rightarrow> string" where
  "nodeTag (ElementNode tag attrs mods children comments bps l) = tag"
| "nodeTag node = []"

fun nodeAttributes :: "Node \<Rightarrow> Node list" where
  "nodeAttributes (ElementNode tag attrs mods children comments bps l) = attrs"
| "nodeAttributes node = []"

fun setAttributes :: "Node \<Rightarrow> Node list \<Rightarrow> Node" where
  "setAttributes (ElementNode tag attrs mods children comments bps l) attrs' =
     ElementNode tag attrs' mods children comments bps l"
| "setAttributes node attrs' = node"

text \<open>
  Calling the \<^verbatim>\<open>exit\<close> closure of a marker. The closure created by the visitor of block
  statements passes the captured \<^verbatim>\<open>rootName\<close> and the hash pairs of its node, the one
  created on entering an element passes \<^verbatim>\<open>node.tag\<close> and the attributes of its node; both
  read \<^verbatim>\<open>argumentsAreComponents\<close> from the marker they are called with. The node is read
  from the store when the closure is called, and the attributes the loop has rewritten
  are written to it.
\<close>

definition callExit :: "Resolver \<Rightarrow> ComponentBlockMarker \<Rightarrow> State \<Rightarrow> error + State" where
  "callExit r marker st =
     (case exit marker of
        BlockStatementExit rootName cell \<Rightarrow>
          (let node = captured st ! cell
           in case handleDynamicComponentArguments r rootName
                     (live_argumentsAreComponents marker) (pairs (nodeHash node)) st of
                Inl e \<Rightarrow> Inl e
              | Inr (ps', st') \<Rightarrow>
                  Inr (st'\<lparr> captured := (captured st')[cell := setPairs node ps'] \<rparr>))
      | ElementNodeExit cell \<Rightarrow>
          (let node = captured st ! cell
           in case handleDynamicComponentArguments r (nodeTag node)
                     (live_argumentsAreComponents marker) (nodeAttributes node) st of
                Inl e \<Rightarrow> Inl e
              | Inr (attrs', st') \<Rightarrow>
                  Inr (st'\<lparr> captured := (captured st')[cell := setAttributes node attrs'] \<rparr>)))"

text \<open>
  \<^verbatim>\<open>ScopeStack.pop\<close>: \<^verbatim>\<open>shift\<close>, and when the new first entry is a marker, call its
  \<^verbatim>\<open>exit\<close> and \<^verbatim>\<open>shift\<close> again. \<^verbatim>\<open>shift\<close> on an empty array does nothing.
\<close>

definition pop :: "Resolver \<Rightarrow> State \<Rightarrow> error + State" where
  "pop r st =
     (case drop 1 (scopeStack st) of
        Marker next # rest \<Rightarrow>
          (case callExit r next (st\<lparr> scopeStack := Marker next # rest \<rparr>) of
             Inl e \<Rightarrow> Inl e
           | Inr st' \<Rightarrow> Inr (st'\<lparr> scopeStack := drop 1 (scopeStack st') \<rparr>))
      | stack' \<Rightarrow> Inr (st\<lparr> scopeStack := stack' \<rparr>))"

subsection \<open>The other visitors\<close>

text \<open>
  \<^verbatim>\<open>visitor.Program\<close>, which the tree walk also calls for \<^verbatim>\<open>Template\<close> and \<^verbatim>\<open>Block\<close>
  nodes.
\<close>

definition Program_enter :: "Resolver \<Rightarrow> string list \<Rightarrow> State \<Rightarrow> State" where
  "Program_enter r blockParams st =
     (let st1 = st\<lparr> scopeStack := push blockParams (scopeStack st) \<rparr>
      in case locals r of
           Some ls \<Rightarrow> st1\<lparr> scopeStack := push ls (scopeStack st1) \<rparr>
         | None \<Rightarrow> st1)"

definition Program_exit :: "Resolver \<Rightarrow> State \<Rightarrow> error + State" where
  "Program_exit r st =
     (case pop r st of
        Inl e \<Rightarrow> Inl e
      | Inr st1 \<Rightarrow>
          (case locals r of
             Some ls \<Rightarrow> pop r st1
           | None \<Rightarrow> Inr st1))"

text \<open>
  \<^verbatim>\<open>rootName\<close> in a message: \<^verbatim>\<open>parts[0]\<close>, which prints as \<^verbatim>\<open>undefined\<close> when the path
  has no parts.
\<close>

definition rootNameOf :: "string list \<Rightarrow> string" where
  "rootNameOf parts = (case at_index parts 0 of None \<Rightarrow> ''undefined'' | Some n \<Rightarrow> n)"

text \<open>
  \<^verbatim>\<open>visitor.BlockStatement\<close>. When the callee resolves to a component, the node is
  captured by the exit closure: it is put in the store, at a new address.
\<close>

definition BlockStatement_visit :: "Resolver \<Rightarrow> Node \<Rightarrow> State \<Rightarrow> error + (Node \<times> State)" where
  "BlockStatement_visit r node st =
     (case node of
        BlockStatement (PathExpression orig this data parts pl) params hash program inverseBlock l \<Rightarrow>
          if rootInScope parts (scopeStack st) then Inr (node, st)
          else if this then Inr (node, st)
          else if length parts > 1 then Inr (node, st)
          else if orig = ''component'' \<and> params \<noteq> [] then
            (let (res, st1) = handleComponentHelper r (params ! 0) None st
             in emit r res setParam0 node st1)
          else
            (let res = targetComponent r orig
             in case emit r (map_option Component res) setPath node st of
                  Inl e \<Rightarrow> Inl e
                | Inr (node1, st1) \<Rightarrow>
                    (case res of
                       Some c \<Rightarrow>
                         Inr (node1,
                              st1\<lparr> scopeStack :=
                                     enteringComponentBlock c
                                       (BlockStatementExit (rootNameOf parts)
                                          (length (captured st1)))
                                       (scopeStack st1),
                                   captured := captured st1 @ [node1] \<rparr>)
                     | None \<Rightarrow> Inr (node1, st1)))
      | _ \<Rightarrow> Inr (node, st))"

definition SubExpression_visit :: "Resolver \<Rightarrow> Node \<Rightarrow> State \<Rightarrow> error + (Node \<times> State)" where
  "SubExpression_visit r node st =
     (case node of
        SubExpression (PathExpression orig this data parts pl) params hash l \<Rightarrow>
          if this then Inr (node, st)
          else if rootInScope parts (scopeStack st) then Inr (node, st)
          else if orig = ''component'' \<and> params \<noteq> [] then
            (let (res, st1) = handleComponentHelper r (params ! 0) None st
             in emit r res setParam0 node st1)
          else if orig = ''helper'' \<and> params \<noteq> [] then
            emit r (handleDynamicHelper r (params ! 0)) setParam0 node st
          else if orig = ''modifier'' \<and> params \<noteq> [] then
            emit r (handleDynamicModifier r (params ! 0)) setParam0 node st
          else emit r (targetHelper r orig) setPath node st
      | _ \<Rightarrow> Inr (node, st))"

definition ElementModifierStatement_visit ::
    "Resolver \<Rightarrow> Node \<Rightarrow> State \<Rightarrow> error + (Node \<times> State)" where
  "ElementModifierStatement_visit r node st =
     (case node of
        ElementModifierStatement (PathExpression orig this data parts pl) params hash l \<Rightarrow>
          if rootInScope parts (scopeStack st) then Inr (node, st)
          else if this then Inr (node, st)
          else if data then Inr (node, st)
          else if length parts > 1 then Inr (node, st)
          else emit r (targetElementModifier r orig) setPath node st
      | _ \<Rightarrow> Inr (node, st))"

text \<open>ASCII lower case of one character, for \<^verbatim>\<open>node.tag[0].toLowerCase()\<close>.\<close>

definition toLowerCase :: "char \<Rightarrow> char" where
  "toLowerCase c =
     (case map_of (zip ''ABCDEFGHIJKLMNOPQRSTUVWXYZ'' ''abcdefghijklmnopqrstuvwxyz'') c of
        Some u \<Rightarrow> u
      | None \<Rightarrow> c)"

text \<open>
  \<^verbatim>\<open>visitor.ElementNode.enter\<close>. Reading \<^verbatim>\<open>node.tag[0]\<close> of an empty tag gives
  \<^verbatim>\<open>undefined\<close>, on which \<^verbatim>\<open>toLowerCase\<close> throws.
\<close>

definition ElementNode_enter :: "Resolver \<Rightarrow> Node \<Rightarrow> State \<Rightarrow> error + (Node \<times> State)" where
  "ElementNode_enter r node st =
     (case node of
        ElementNode tag attrs mods children comments blockParams l \<Rightarrow>
          if \<not> inScope (split (CHR ''.'') tag ! 0) (scopeStack st) then
            (case tag of
               [] \<Rightarrow> Inl TypeError
             | c # cs \<Rightarrow>
                 (let res = (if c \<noteq> toLowerCase c then targetComponent r (dasherize r tag)
                             else None)
                  in case emit r (map_option Component res) setTag node st of
                       Inl e \<Rightarrow> Inl e
                     | Inr (node1, st1) \<Rightarrow>
                         (case res of
                            Some cres \<Rightarrow>
                              Inr (node1,
                                   st1\<lparr> scopeStack :=
                                          push blockParams
                                            (enteringComponentBlock cres
                                               (ElementNodeExit (length (captured st1)))
                                               (scopeStack st1)),
                                        captured := captured st1 @ [node1] \<rparr>)
                          | None \<Rightarrow>
                              Inr (node1,
                                   st1\<lparr> scopeStack := push blockParams (scopeStack st1) \<rparr>))))
          else Inr (node, st\<lparr> scopeStack := push blockParams (scopeStack st) \<rparr>)
      | _ \<Rightarrow> Inr (node, st))"

definition ElementNode_exit :: "Resolver \<Rightarrow> State \<Rightarrow> error + State" where
  "ElementNode_exit r st = pop r st"

subsection \<open>Example resolvers and nodes\<close>

text \<open>
  Concrete parameters for the examples: a stand-in for \<^verbatim>\<open>camelCase\<close> that is right on
  dasherized lower-case names, the identity for \<^verbatim>\<open>dasherize\<close>, and a \<^verbatim>\<open>bindImport\<close> that
  returns the name hint.
\<close>

fun camelCaseDashed :: "string \<Rightarrow> string" where
  "camelCaseDashed [] = []"
| "camelCaseDashed [c] = (if c = CHR ''-'' then [] else [c])"
| "camelCaseDashed (c # d # ds) =
     (if c = CHR ''-'' then toUpperCase d # camelCaseDashed ds
      else c # camelCaseDashed (d # ds))"

definition example_resolver :: "UserConfig \<Rightarrow> bool \<Rightarrow> Resolver" where
  "example_resolver opts collector =
     \<lparr> filename = ''/app/templates/application.hbs'',
       contents = ''{{hello-world}}'',
       locals = None,
       appRoot = ''/app'',
       options = opts,
       auditHandler = collector,
       rules = \<lparr> files = Map.empty, components = Map.empty \<rparr>,
       camelCase = camelCaseDashed,
       dasherize = (\<lambda>tag. tag),
       bindImport = (\<lambda>spec hint. hint) \<rparr>"

definition toggles :: "bool \<Rightarrow> bool \<Rightarrow> bool \<Rightarrow> UserConfig" where
  "toggles c h tolerate =
     \<lparr> staticHelpers = h, staticModifiers = False, staticComponents = c,
       allowUnsafeDynamicComponents = tolerate \<rparr>"

definition initial_state :: State where
  "initial_state = \<lparr> scopeStack = [BlockParams []], audit = [], bound = [], captured = [] \<rparr>"

definition curly :: "string \<Rightarrow> Node list \<Rightarrow> Node list \<Rightarrow> Node" where
  "curly name params ps =
     MustacheStatement (PathExpression name False False [name] ((1, 2), (1, 2 + length name)))
       params (Hash ps ((1, 0), (1, 0))) ((1, 0), (1, 0))"

definition allEnabled :: "Resolver \<Rightarrow> Resolver" where
  "allEnabled r =
     r\<lparr> options := (options r)\<lparr> staticHelpers := True, staticModifiers := True,
                                 staticComponents := True \<rparr> \<rparr>"

definition example_rules_resolver :: Resolver where
  "example_rules_resolver =
     (example_resolver (toggles True True False) False)
       \<lparr> rules := \<lparr> files =
           [''/app/templates/application.hbs'' \<mapsto>
              \<lparr> yieldsSafeComponents = [], rule_yieldsArguments = [],
                rule_argumentsAreComponents = [], safeToIgnore = False,
                safeInteriorPaths = [''this.trusted''],
                disambiguate = [''known-helper'' \<mapsto> AsHelper] \<rparr>],
           components = Map.empty \<rparr> \<rparr>"

definition arg_pair :: Node where
  "arg_pair = HashPair ''arg'' (NumberLiteral 1 ((1, 18), (1, 19))) ((1, 14), (1, 19))"

definition value_pair :: Node where
  "value_pair =
     HashPair ''value'' (PathExpression ''this.name'' True False [''name''] ((1, 14), (1, 23)))
       ((1, 8), (1, 23))"

section \<open>Compiling the rules\<close>

text \<open>
  The memoized getter \<^verbatim>\<open>rules\<close> builds the two maps of the index from
  \<^verbatim>\<open>config.activePackageRules\<close>. The type of a raw rule and the functions
  \<^verbatim>\<open>preprocessComponentRule\<close>, \<^verbatim>\<open>snippetToDasherizedName\<close> and \<^verbatim>\<open>join\<close> belong to modules that
  are not among the sources: the raw rule is a type parameter and the three functions are
  the fields of a \<open>RuleLibrary\<close>. Of a package rule the getter reads \<^verbatim>\<open>components\<close>,
  \<^verbatim>\<open>appTemplates\<close>, \<^verbatim>\<open>addonTemplates\<close> (each absent or an object, whose entries
  \<^verbatim>\<open>Object.entries\<close> lists in insertion order) and \<^verbatim>\<open>roots\<close>.
\<close>

record 'raw ActivePackageRules =
  rule_components :: "(string \<times> 'raw) list option"
  rule_appTemplates :: "(string \<times> 'raw) list option"
  rule_addonTemplates :: "(string \<times> 'raw) list option"
  rule_roots :: "string list"

text \<open>
  What \<^verbatim>\<open>standardDasherize\<close> throws: an \<^verbatim>\<open>Error\<close> whose message is built from the snippet
  and the rule (\<^verbatim>\<open>unable to parse component snippet ... from rule ...\<close>). It is not a
  resolver error: \<^verbatim>\<open>isTemplateResolverError\<close> is not set on it.
\<close>

datatype 'raw ConfigurationError = UnparsableSnippet string "'raw ActivePackageRules"

record 'raw RuleLibrary =
  preprocessComponentRule :: "'raw \<Rightarrow> PreprocessedComponentRule"
  snippetToDasherizedName :: "string \<Rightarrow> string option"
  join :: "string \<Rightarrow> string \<Rightarrow> string"

definition standardDasherize ::
    "'raw RuleLibrary \<Rightarrow> string \<Rightarrow> 'raw ActivePackageRules \<Rightarrow> 'raw ConfigurationError + string" where
  "standardDasherize lib snippet rule =
     (case snippetToDasherizedName lib snippet of
        None \<Rightarrow> Inl (UnparsableSnippet snippet rule)
      | Some name \<Rightarrow> Inr name)"

text \<open>
  The loops of the getter over the entries of \<^verbatim>\<open>rule.components\<close>, \<^verbatim>\<open>rule.appTemplates\<close> and
  \<^verbatim>\<open>rule.addonTemplates\<close> (for the last, one entry of the map for every root), and over the
  rules. The first snippet that cannot be parsed ends the getter.
\<close>

fun compileComponents ::
    "'raw RuleLibrary \<Rightarrow> 'raw ActivePackageRules \<Rightarrow> (string \<times> 'raw) list
      \<Rightarrow> (string \<rightharpoonup> PreprocessedComponentRule)
      \<Rightarrow> 'raw ConfigurationError + (string \<rightharpoonup> PreprocessedComponentRule)" where
  "compileComponents lib rule [] table = Inr table"
| "compileComponents lib rule ((snippet, rawRules) # entries) table =
     (let processedRules = preprocessComponentRule lib rawRules
      in case standardDasherize lib snippet rule of
           Inl e \<Rightarrow> Inl e
         | Inr dasherizedName \<Rightarrow>
             compileComponents lib rule entries (table(dasherizedName \<mapsto> processedRules)))"

fun compileAppTemplates ::
    "'raw RuleLibrary \<Rightarrow> string \<Rightarrow> (string \<times> 'raw) list
      \<Rightarrow> (string \<rightharpoonup> PreprocessedComponentRule) \<Rightarrow> (string \<rightharpoonup> PreprocessedComponentRule)" where
  "compileAppTemplates lib root [] table = table"
| "compileAppTemplates lib root ((path, templateRules) # entries) table =
     compileAppTemplates lib root entries
       (table(join lib root path \<mapsto> preprocessComponentRule lib templateRules))"

fun setForRoots ::
    "'raw RuleLibrary \<Rightarrow> string \<Rightarrow> PreprocessedComponentRule \<Rightarrow> string list
      \<Rightarrow> (string \<rightharpoonup> PreprocessedComponentRule) \<Rightarrow> (string \<rightharpoonup> PreprocessedComponentRule)" where
  "setForRoots lib path processedRules [] table = table"
| "setForRoots lib path processedRules (root # roots) table =
     setForRoots lib path processedRules roots (table(join lib root path \<mapsto> processedRules))"

fun compileAddonTemplates ::
    "'raw RuleLibrary \<Rightarrow> string list \<Rightarrow> (string \<times> 'raw) list
      \<Rightarrow> (string \<rightharpoonup> PreprocessedComponentRule) \<Rightarrow> (string \<rightharpoonup> PreprocessedComponentRule)" where
  "compileAddonTemplates lib roots [] table = table"
| "compileAddonTemplates lib roots ((path, templateRules) # entries) table =
     compileAddonTemplates lib roots entries
       (setForRoots lib path (preprocessComponentRule lib templateRules) roots table)"

fun compileRules ::
    "'raw RuleLibrary \<Rightarrow> string \<Rightarrow> 'raw ActivePackageRules list \<Rightarrow> Rules
      \<Rightarrow> 'raw ConfigurationError + Rules" where
  "compileRules lib root [] compiled = Inr compiled"
| "compileRules lib root (rule # activePackageRules) compiled =
     (case (case rule_components rule of
              None \<Rightarrow> Inr (components compiled)
            | Some entries \<Rightarrow> compileComponents lib rule entries (components compiled)) of
        Inl e \<Rightarrow> Inl e
      | Inr components' \<Rightarrow>
          (let files1 = (case rule_appTemplates rule of
                           None \<Rightarrow> files compiled
                         | Some entries \<Rightarrow> compileAppTemplates lib root entries (files compiled));
               files2 = (case rule_addonTemplates rule of
                           None \<Rightarrow> files1
                         | Some entries \<Rightarrow>
                             compileAddonTemplates lib (rule_roots rule) entries files1)
           in compileRules lib root activePackageRules
                \<lparr> files = files2, components = components' \<rparr>))"

definition rulesGetter ::
    "'raw RuleLibrary \<Rightarrow> string \<Rightarrow> 'raw ActivePackageRules list \<Rightarrow> 'raw ConfigurationError + Rules" where
  "rulesGetter lib root activePackageRules =
     compileRules lib root activePackageRules \<lparr> files = Map.empty, components = Map.empty \<rparr>"

text \<open>
  The resolver after the first read of \<^verbatim>\<open>this.rules\<close>: the getter runs on the
  \<^verbatim>\<open>appRoot\<close> of the configuration, and what it returns is the index of every later read.
  The getter reads neither the audit handler nor the options.
\<close>

definition withRules ::
    "'raw RuleLibrary \<Rightarrow> 'raw ActivePackageRules list \<Rightarrow> Resolver \<Rightarrow> 'raw ConfigurationError + Resolver" where
  "withRules lib activePackageRules r =
     (case rulesGetter lib (appRoot r) activePackageRules of
        Inl e \<Rightarrow> Inl e
      | Inr compiled \<Rightarrow> Inr (r\<lparr> rules := compiled \<rparr>))"

text \<open>
  A snippet among the components of a rule that \<^verbatim>\<open>snippetToDasherizedName\<close> cannot parse.
\<close>

definition unparsable :: "'raw RuleLibrary \<Rightarrow> 'raw ActivePackageRules \<Rightarrow> string \<Rightarrow> bool" where
  "unparsable lib rule snippet \<longleftrightarrow>
     (case rule_components rule of
        None \<Rightarrow> False
      | Some entries \<Rightarrow> snippet \<in> fst ` set entries \<and> snippetToDasherizedName lib snippet = None)"

text \<open>
  The three outcomes of an error that reaches \<^verbatim>\<open>reportError\<close>, written once for the
  statements below: with an audit handler the error is appended to the messages of the
  handler and the work goes on with the value \<open>x\<close>; without one it is dropped when unsafe
  dynamic components are allowed, and thrown otherwise.
\<close>

definition errorOutcome :: "Resolver \<Rightarrow> ResolutionFail \<Rightarrow> 'a \<Rightarrow> State \<Rightarrow> error + ('a \<times> State)" where
  "errorOutcome r dep x st =
     (if auditHandler r then
        Inr (x, st\<lparr> audit := audit st @
                   [\<lparr> audit_message = message dep, audit_filename = filename r,
                      audit_detail = detail dep, audit_loc = loc dep,
                      audit_source = contents r \<rparr>] \<rparr>)
      else if allowUnsafeDynamicComponents (options r) then Inr (x, st)
      else Inl (TemplateResolverError
                  (message dep @ '': '' @ detail dep @ '' in ''
                     @ humanReadableFile r (filename r))
                  (loc dep) (filename r)))"

text \<open>
  A package rule with one snippet the example library parses and one it does not.
\<close>

definition bad_rules :: "unit ActivePackageRules" where
  "bad_rules =
     \<lparr> rule_components = Some [(''<HelloWorld />'', ()), (''not a component'', ())],
       rule_appTemplates = None, rule_addonTemplates = None, rule_roots = [] \<rparr>"

definition example_library :: "unit RuleLibrary" where
  "example_library =
     \<lparr> preprocessComponentRule =
         (\<lambda>raw. \<lparr> yieldsSafeComponents = [], rule_yieldsArguments = [],
                   rule_argumentsAreComponents = [], safeToIgnore = False,
                   safeInteriorPaths = [], disambiguate = Map.empty \<rparr>),
       snippetToDasherizedName =
         (\<lambda>snippet. if snippet = ''<HelloWorld />'' then Some ''hello-world'' else None),
       join = (\<lambda>root path. root @ ''/'' @ path) \<rparr>"

section \<open>The kinds of dynamic component arguments, as specified\<close>

text \<open>
  The specification classifies the argument expression of a dynamic component form as a
  string literal, a bare path reference, a nested \<^verbatim>\<open>component\<close> or trusted
  \<^verbatim>\<open>ensure-safe-component\<close> sub-call, or anything else, and gives the outcome of each kind.
  \<open>argumentKind\<close> and \<open>spec_dynamicComponentResolution\<close> follow its words. A sub-call is,
  as in the per-kind policy of the specification, a value-producing nested call, that is a
  sub-expression; the text of an attribute is a literal; and a mustache without arguments,
  the form in which an attribute passes an expression, stands for that expression. Any
  other mustache is not one of the three named kinds. The two definitions are compared
  with \<^const>\<open>handleComponentHelper\<close> below.
\<close>

datatype ArgumentKind = LiteralArgument string | PathArgument string | NestedCall | OtherExpression

fun argumentKind :: "Node \<Rightarrow> ArgumentKind \<times> Loc" where
  "argumentKind (StringLiteral v l) = (LiteralArgument v, l)"
| "argumentKind (TextNode chars l) = (LiteralArgument chars, l)"
| "argumentKind (PathExpression orig t d ps l) = (PathArgument orig, l)"
| "argumentKind (SubExpression path params hash l) =
     (if isPathNamed path ''component'' \<or> isPathNamed path ''ensure-safe-component''
      then (NestedCall, l) else (OtherExpression, l))"
| "argumentKind (MustacheStatement path params hash l) =
     (if params = [] \<and> pairs hash = [] then argumentKind path else (OtherExpression, l))"
| "argumentKind node = (OtherExpression, node_loc node)"

definition ownSafeInteriorPaths :: "Resolver \<Rightarrow> string set" where
  "ownSafeInteriorPaths r =
     (case findRules r (filename r) of
        None \<Rightarrow> {}
      | Some ownComponentRules \<Rightarrow> set (safeInteriorPaths ownComponentRules))"

definition spec_dynamicComponentResolution ::
    "Resolver \<Rightarrow> (string \<times> string) option \<Rightarrow> State \<Rightarrow> ArgumentKind \<times> Loc
      \<Rightarrow> Resolution option" where
  "spec_dynamicComponentResolution r implied st classified =
     (case fst classified of
        LiteralArgument s \<Rightarrow> map_option Component (targetComponent r s)
      | PathArgument p \<Rightarrow>
          if fst (safeComponentInScope p (scopeStack st)) \<or> p \<in> ownSafeInteriorPaths r
          then None
          else Some (Error \<lparr> message = impliedMessage implied, detail = p,
                              loc = snd classified \<rparr>)
      | NestedCall \<Rightarrow> None
      | OtherExpression \<Rightarrow>
          Some (Error \<lparr> message = impliedMessage implied,
                        detail = ''cannot statically analyze this expression'',
                        loc = snd classified \<rparr>))"

text \<open>
  The expressions on which \<^const>\<open>handleComponentHelper\<close> departs from that classification:
  a mustache call of \<^verbatim>\<open>component\<close> with arguments, under any number of mustaches without
  arguments.
\<close>

fun curlyComponentCall :: "Node \<Rightarrow> bool" where
  "curlyComponentCall (MustacheStatement path params hash l) =
     (if params = [] \<and> pairs hash = [] then curlyComponentCall path
      else isPathNamed path ''component'')"
| "curlyComponentCall node = False"

text \<open>
  Examples: the path \<^verbatim>\<open>this.x\<close>, the mustache calls \<^verbatim>\<open>{{component "fancy-title"}}\<close> and
  \<^verbatim>\<open>{{ensure-safe-component this.x}}\<close> as values of an argument, a resolver whose rule for
  \<^verbatim>\<open>form-thing\<close> lists \<^verbatim>\<open>title\<close> under \<^verbatim>\<open>argumentsAreComponents\<close> and whose
  \<^verbatim>\<open>bindImport\<close> returns the camel-cased name hint, and the block
  \<^verbatim>\<open>{{#form-thing title=this.x}}{{/form-thing}}\<close>.
\<close>

definition this_x :: Node where
  "this_x = PathExpression ''this.x'' True False [''x''] ((1, 30), (1, 36))"

definition curly_component_call :: Node where
  "curly_component_call = curly ''component'' [StringLiteral ''fancy-title'' ((1, 30), (1, 43))] []"

definition curly_trusted_call :: Node where
  "curly_trusted_call = curly ''ensure-safe-component'' [this_x] []"

definition form_rules_resolver :: "bool \<Rightarrow> Resolver" where
  "form_rules_resolver helpers =
     (example_resolver (toggles True helpers False) False)
       \<lparr> rules := \<lparr> files = Map.empty,
                    components =
                      [''form-thing'' \<mapsto>
                         \<lparr> yieldsSafeComponents = [], rule_yieldsArguments = [],
                           rule_argumentsAreComponents = [''title''], safeToIgnore = False,
                           safeInteriorPaths = [], disambiguate = Map.empty \<rparr>] \<rparr>,
         bindImport := (\<lambda>spec hint. camelCaseDashed hint) \<rparr>"

definition title_pair :: Node where
  "title_pair = HashPair ''title'' this_x ((1, 24), (1, 36))"

definition block_form_thing :: Node where
  "block_form_thing =
     BlockStatement (PathExpression ''form-thing'' False False [''form-thing'']
                       ((1, 3), (1, 13)))
       [] (Hash [title_pair] ((1, 14), (1, 36))) (Block [] []) None ((1, 0), (1, 54))"

definition form_thing_resolution :: ComponentResolution where
  "form_thing_resolution =
     \<lparr> specifier = ''#embroider_compat/components/form-thing'',
       yieldsComponents = [], yieldsArguments = [], argumentsAreComponents = [''title''],
       nameHint = ''form-thing_'' \<rparr>"

text \<open>
  The call \<^verbatim>\<open>{{component x}}\<close> and the scope stack at that call in
  \<^verbatim>\<open><HelloWorld as |x|>{{#each this.items as |x|}}{{component x}}{{/each}}</HelloWorld>\<close>: the
  frame of the \<^verbatim>\<open>each\<close> block, which no marker follows, above the frame and the marker of
  the element, whose rule says that it yields a safe component.
\<close>

definition component_x :: Node where
  "component_x =
     curly ''component'' [PathExpression ''x'' False False [''x''] ((1, 55), (1, 56))] []"

definition hello_world_marker :: ComponentBlockMarker where
  "hello_world_marker =
     \<lparr> resolution =
         \<lparr> specifier = ''#embroider_compat/components/HelloWorld'',
           yieldsComponents = [SafeBool True], yieldsArguments = [],
           argumentsAreComponents = [''title''], nameHint = ''HelloWorld_'' \<rparr>,
       live_argumentsAreComponents = [''title''], exit = ElementNodeExit 0 \<rparr>"

definition shadowing_stack :: "ScopeEntry list" where
  "shadowing_stack =
     [BlockParams [''x''], BlockParams [''x''], Marker hello_world_marker, BlockParams []]"

section \<open>The tree walk\<close>

text \<open>
  Modelled from the spec: the walk itself is done by \<^verbatim>\<open>traverse\<close> of the template compiler
  (package \<^verbatim>\<open>@glimmer/syntax\<close>), which is not among the sources; the resolver only supplies
  its \<^verbatim>\<open>visitor\<close>. Following section 4.3 of the specification (a single top-down,
  depth-first walk with explicit enter and exit hooks), a node is entered, its children are
  visited in the order of the visitor keys of its type, and it is exited; the visitor
  \<^verbatim>\<open>Program\<close> is also called for \<^verbatim>\<open>Template\<close> and \<^verbatim>\<open>Block\<close> nodes. The visitors change the
  nodes in place, so the children visited are those of the node as the enter hook left it.

  A walk ends with the error a visitor threw, or with the node as rewritten and the state;
  \<open>OutOfFuel\<close> is the value of a walk cut by the bound on the depth of its recursion. With
  the outcome comes the list of the scope stacks seen on the way: the stack after every
  enter hook, and the stack at both steps of every \<^verbatim>\<open>pop\<close>, namely once the first entry is
  removed, which is the stack on which the exit closure of a marker runs, and at the end
  of \<^verbatim>\<open>pop\<close>.
\<close>

datatype 'a Outcome = Thrown error | OutOfFuel | Finished 'a State

type_synonym 'a Walked = "ScopeEntry list list \<times> 'a Outcome"

definition observed :: "error + (Node \<times> State) \<Rightarrow> Node Walked" where
  "observed res =
     (case res of
        Inl e \<Rightarrow> ([], Thrown e)
      | Inr (node, st) \<Rightarrow> ([scopeStack st], Finished node st))"

definition andThen :: "'a Walked \<Rightarrow> ('a \<Rightarrow> State \<Rightarrow> 'b Walked) \<Rightarrow> 'b Walked" where
  "andThen w f =
     (case w of
        (seen, Finished x st) \<Rightarrow> (let (seen', out) = f x st in (seen @ seen', out))
      | (seen, Thrown e) \<Rightarrow> (seen, Thrown e)
      | (seen, OutOfFuel) \<Rightarrow> (seen, OutOfFuel))"

primrec visitArray ::
    "(Node \<Rightarrow> State \<Rightarrow> Node Walked) \<Rightarrow> Node list \<Rightarrow> State \<Rightarrow> Node list Walked" where
  "visitArray visit [] st = ([], Finished [] st)"
| "visitArray visit (x # xs) st =
     andThen (visit x st) (\<lambda>x' st1.
     andThen (visitArray visit xs st1) (\<lambda>xs' st2.
       ([], Finished (x' # xs') st2)))"

definition visitOptional ::
    "(Node \<Rightarrow> State \<Rightarrow> Node Walked) \<Rightarrow> Node option \<Rightarrow> State \<Rightarrow> Node option Walked" where
  "visitOptional visit child st =
     (case child of
        None \<Rightarrow> ([], Finished None st)
      | Some x \<Rightarrow> andThen (visit x st) (\<lambda>x' st1. ([], Finished (Some x') st1)))"

definition enterNode :: "Resolver \<Rightarrow> Node option \<Rightarrow> Node \<Rightarrow> State \<Rightarrow> error + (Node \<times> State)" where
  "enterNode r parent node st =
     (case node of
        Template blockParams body \<Rightarrow> Inr (node, Program_enter r blockParams st)
      | Block blockParams body \<Rightarrow> Inr (node, Program_enter r blockParams st)
      | MustacheStatement p xs h l \<Rightarrow> MustacheStatement_enter r parent node st
      | BlockStatement p xs h b i l \<Rightarrow> BlockStatement_visit r node st
      | SubExpression p xs h l \<Rightarrow> SubExpression_visit r node st
      | ElementModifierStatement p xs h l \<Rightarrow> ElementModifierStatement_visit r node st
      | ElementNode tag attrs mods children comments bps l \<Rightarrow> ElementNode_enter r node st
      | _ \<Rightarrow> Inr (node, st))"

text \<open>
  A node captured by an exit closure is the node of the tree itself. The copy in the store
  is brought up to date when the children the closure reads (the hash of a block
  statement, the attributes of an element) have been visited, and the attributes the
  closure rewrites are read back from the store when the element is left.
\<close>

definition store :: "nat option \<Rightarrow> Node \<Rightarrow> State \<Rightarrow> State" where
  "store cell node st =
     (case cell of
        None \<Rightarrow> st
      | Some c \<Rightarrow> st\<lparr> captured := (captured st)[c := node] \<rparr>)"

definition fetch :: "nat option \<Rightarrow> Node \<Rightarrow> State \<Rightarrow> Node" where
  "fetch cell node st =
     (case cell of
        None \<Rightarrow> node
      | Some c \<Rightarrow> captured st ! c)"

definition popObserved :: "Resolver \<Rightarrow> State \<Rightarrow> unit Walked" where
  "popObserved r st =
     (case pop r st of
        Inl e \<Rightarrow> ([drop 1 (scopeStack st)], Thrown e)
      | Inr st' \<Rightarrow> ([drop 1 (scopeStack st), scopeStack st'], Finished () st'))"

definition exitNode :: "Resolver \<Rightarrow> nat option \<Rightarrow> Node \<Rightarrow> State \<Rightarrow> Node Walked" where
  "exitNode r cell node st =
     (case node of
        Template blockParams body \<Rightarrow>
          andThen (popObserved r st) (\<lambda>u st1.
            case locals r of
              Some ls \<Rightarrow> andThen (popObserved r st1) (\<lambda>u st2. ([], Finished node st2))
            | None \<Rightarrow> ([], Finished node st1))
      | Block blockParams body \<Rightarrow>
          andThen (popObserved r st) (\<lambda>u st1.
            case locals r of
              Some ls \<Rightarrow> andThen (popObserved r st1) (\<lambda>u st2. ([], Finished node st2))
            | None \<Rightarrow> ([], Finished node st1))
      | ElementNode tag attrs mods children comments bps l \<Rightarrow>
          andThen (popObserved r st) (\<lambda>u st1.
            ([], Finished (setAttributes node (nodeAttributes (fetch cell node st1))) st1))
      | _ \<Rightarrow> ([], Finished node st))"

text \<open>
  The children of a node, in the order of the visitor keys: \<open>path\<close>, \<open>params\<close>, \<open>hash\<close> (then
  \<open>program\<close> and \<open>inverse\<close> for a block statement); \<open>attributes\<close>, \<open>modifiers\<close>, \<open>children\<close>
  and \<open>comments\<close> for an element; \<open>body\<close> for a template or block.
\<close>

definition visitKeys ::
    "(Node \<Rightarrow> State \<Rightarrow> Node Walked) \<Rightarrow> nat option \<Rightarrow> Node \<Rightarrow> State \<Rightarrow> Node Walked" where
  "visitKeys visit cell node st =
     (case node of
        Template blockParams body \<Rightarrow>
          andThen (visitArray visit body st) (\<lambda>body' st1.
            ([], Finished (Template blockParams body') st1))
      | Block blockParams body \<Rightarrow>
          andThen (visitArray visit body st) (\<lambda>body' st1.
            ([], Finished (Block blockParams body') st1))
      | MustacheStatement p xs h l \<Rightarrow>
          andThen (visit p st) (\<lambda>p' st1.
          andThen (visitArray visit xs st1) (\<lambda>xs' st2.
          andThen (visit h st2) (\<lambda>h' st3.
            ([], Finished (MustacheStatement p' xs' h' l) st3))))
      | BlockStatement p xs h b i l \<Rightarrow>
          andThen (visit p st) (\<lambda>p' st1.
          andThen (visitArray visit xs st1) (\<lambda>xs' st2.
          andThen (visit h st2) (\<lambda>h' st3.
          andThen (visit b (store cell (BlockStatement p' xs' h' b i l) st3)) (\<lambda>b' st4.
          andThen (visitOptional visit i st4) (\<lambda>i' st5.
            ([], Finished
                   (BlockStatement p' xs'
                      (nodeHash (fetch cell (BlockStatement p' xs' h' b i l) st5)) b' i' l)
                   st5))))))
      | ElementModifierStatement p xs h l \<Rightarrow>
          andThen (visit p st) (\<lambda>p' st1.
          andThen (visitArray visit xs st1) (\<lambda>xs' st2.
          andThen (visit h st2) (\<lambda>h' st3.
            ([], Finished (ElementModifierStatement p' xs' h' l) st3))))
      | ElementNode tag attrs mods children comments bps l \<Rightarrow>
          andThen (visitArray visit attrs st) (\<lambda>attrs' st1.
          andThen (visitArray visit mods
                     (store cell (ElementNode tag attrs' mods children comments bps l) st1))
                  (\<lambda>mods' st2.
          andThen (visitArray visit children st2) (\<lambda>children' st3.
          andThen (visitArray visit comments st3) (\<lambda>comments' st4.
            ([], Finished (ElementNode tag attrs' mods' children' comments' bps l) st4)))))
      | AttrNode name v l \<Rightarrow>
          andThen (visit v st) (\<lambda>v' st1. ([], Finished (AttrNode name v' l) st1))
      | ConcatStatement parts l \<Rightarrow>
          andThen (visitArray visit parts st) (\<lambda>parts' st1.
            ([], Finished (ConcatStatement parts' l) st1))
      | SubExpression p xs h l \<Rightarrow>
          andThen (visit p st) (\<lambda>p' st1.
          andThen (visitArray visit xs st1) (\<lambda>xs' st2.
          andThen (visit h st2) (\<lambda>h' st3.
            ([], Finished (SubExpression p' xs' h' l) st3))))
      | Hash ps l \<Rightarrow>
          andThen (visitArray visit ps st) (\<lambda>ps' st1. ([], Finished (Hash ps' l) st1))
      | HashPair key v l \<Rightarrow>
          andThen (visit v st) (\<lambda>v' st1. ([], Finished (HashPair key v' l) st1))
      | _ \<Rightarrow> ([], Finished node st))"

definition visitNode ::
    "Resolver \<Rightarrow> (Node option \<Rightarrow> Node \<Rightarrow> State \<Rightarrow> Node Walked) \<Rightarrow> Node option \<Rightarrow> Node \<Rightarrow> State
      \<Rightarrow> Node Walked" where
  "visitNode r visit parent node st =
     andThen (observed (enterNode r parent node st)) (\<lambda>node1 st1.
     andThen (visitKeys (visit (Some node1))
                (if length (captured st) < length (captured st1)
                 then Some (length (captured st)) else None)
                node1 st1) (\<lambda>node2 st2.
       exitNode r
         (if length (captured st) < length (captured st1)
          then Some (length (captured st)) else None)
         node2 st2))"

text \<open>
  The recursion of the walk, bounded by a number of nested visits.
\<close>

primrec walk :: "nat \<Rightarrow> Resolver \<Rightarrow> Node option \<Rightarrow> Node \<Rightarrow> State \<Rightarrow> Node Walked" where
  "walk 0 = (\<lambda>r parent node st. ([], OutOfFuel))"
| "walk (Suc fuel) = (\<lambda>r parent node st. visitNode r (walk fuel r) parent node st)"

definition empty_state :: State where
  "empty_state = \<lparr> scopeStack = [], audit = [], bound = [], captured = [] \<rparr>"

definition traverse :: "nat \<Rightarrow> Resolver \<Rightarrow> Node \<Rightarrow> Node Walked" where
  "traverse fuel r template = walk fuel r None template empty_state"

text \<open>
  The template \<^verbatim>\<open>{{#hello-world}}{{/hello-world}}\<close>.
\<close>

definition block_template :: Node where
  "block_template =
     Template []
       [BlockStatement
          (PathExpression ''hello-world'' False False [''hello-world''] ((1, 3), (1, 14)))
          [] (Hash [] ((1, 14), (1, 14)))
          (Block [] []) None ((1, 0), (1, 32))]"

text \<open>
  The shape of a stack says of each entry whether it is a marker. \<open>popShape\<close> is what
  \<^verbatim>\<open>pop\<close> does to a shape.
\<close>

fun isMarker :: "ScopeEntry \<Rightarrow> bool" where
  "isMarker (Marker m) = True"
| "isMarker (BlockParams b) = False"

definition shape :: "ScopeEntry list \<Rightarrow> bool list" where
  "shape stack = map isMarker stack"

fun popShape :: "bool list \<Rightarrow> bool list" where
  "popShape (x # True # rest) = rest"
| "popShape (x # rest) = rest"
| "popShape [] = []"

text \<open>
  A template as the parser builds it: the callee, the arguments and the hash of a call, the
  attributes, modifiers and comments of an element hold no block statement, element or
  block (they are \<open>flat\<close>), and the program and inverse of a block statement are blocks.
\<close>

fun flat :: "Node \<Rightarrow> bool" where
  "flat (Template bps body) = False"
| "flat (Block bps body) = False"
| "flat (BlockStatement p xs h b i l) = False"
| "flat (ElementNode tag attrs mods children comments bps l) = False"
| "flat (MustacheStatement p xs h l) = (flat p \<and> list_all flat xs \<and> flat h)"
| "flat (ElementModifierStatement p xs h l) = (flat p \<and> list_all flat xs \<and> flat h)"
| "flat (SubExpression p xs h l) = (flat p \<and> list_all flat xs \<and> flat h)"
| "flat (AttrNode name v l) = flat v"
| "flat (ConcatStatement parts l) = list_all flat parts"
| "flat (Hash ps l) = list_all flat ps"
| "flat (HashPair key v l) = flat v"
| "flat node = True"

fun isBlock :: "Node \<Rightarrow> bool" where
  "isBlock (Block bps body) = True"
| "isBlock node = False"

fun wellFormed :: "Node \<Rightarrow> bool" where
  "wellFormed (Template bps body) = list_all wellFormed body"
| "wellFormed (Block bps body) = list_all wellFormed body"
| "wellFormed (BlockStatement p xs h b i l) =
     (flat p \<and> list_all flat xs \<and> flat h \<and> isBlock b \<and> wellFormed b
      \<and> (case i of None \<Rightarrow> True | Some ib \<Rightarrow> isBlock ib \<and> wellFormed ib))"
| "wellFormed (ElementNode tag attrs mods children comments bps l) =
     (list_all flat attrs \<and> list_all flat mods \<and> list_all wellFormed children
      \<and> list_all flat comments)"
| "wellFormed node = flat node"

text \<open>
  The type tag of a node, and what every enter hook preserves of a node.
\<close>

fun kind :: "Node \<Rightarrow> nat" where
  "kind (Template _ _) = 0"
| "kind (Block _ _) = 1"
| "kind (MustacheStatement _ _ _ _) = 2"
| "kind (BlockStatement _ _ _ _ _ _) = 3"
| "kind (ElementModifierStatement _ _ _ _) = 4"
| "kind (ElementNode _ _ _ _ _ _ _) = 5"
| "kind (AttrNode _ _ _) = 6"
| "kind (TextNode _ _) = 7"
| "kind (ConcatStatement _ _) = 8"
| "kind (CommentStatement _ _) = 9"
| "kind (MustacheCommentStatement _ _) = 10"
| "kind (SubExpression _ _ _ _) = 11"
| "kind (PathExpression _ _ _ _ _) = 12"
| "kind (StringLiteral _ _) = 13"
| "kind (BooleanLiteral _ _) = 14"
| "kind (NumberLiteral _ _) = 15"
| "kind (NullLiteral _) = 16"
| "kind (UndefinedLiteral _) = 17"
| "kind (Hash _ _) = 18"
| "kind (HashPair _ _ _) = 19"

definition preserved :: "Node \<Rightarrow> Node \<Rightarrow> bool" where
  "preserved node n \<longleftrightarrow>
     kind n = kind node \<and> (flat node \<longrightarrow> flat n) \<and> (wellFormed node \<longrightarrow> wellFormed n)"

text \<open>
  \<open>walkOK P Q w\<close>: every stack seen by the walk \<open>w\<close> satisfies \<open>P\<close>, and the result satisfies
  \<open>Q\<close> when the walk finishes.
\<close>

definition walkOK ::
    "(ScopeEntry list \<Rightarrow> bool) \<Rightarrow> ('a \<Rightarrow> State \<Rightarrow> bool) \<Rightarrow> 'a Walked \<Rightarrow> bool" where
  "walkOK P Q w \<longleftrightarrow> (\<forall>s \<in> set (fst w). P s) \<and> (\<forall>x st. snd w = Finished x st \<longrightarrow> Q x st)"

definition keeps :: "bool list \<Rightarrow> 'a Walked \<Rightarrow> bool" where
  "keeps sh w = walkOK (\<lambda>s. shape s = sh) (\<lambda>_ st'. shape (scopeStack st') = sh) w"

definition visitsFlat :: "(Node \<Rightarrow> State \<Rightarrow> Node Walked) \<Rightarrow> bool" where
  "visitsFlat visit \<longleftrightarrow>
     (\<forall>node st. flat node \<longrightarrow> keeps (shape (scopeStack st)) (visit node st))"

text \<open>
  The invariant as the specification words it, on shapes: every marker is directly below a
  parameter frame (\<open>strictShape\<close>); and with at most one more marker on top
  (\<open>looseShape\<close>).
\<close>

fun strictShape :: "bool list \<Rightarrow> bool" where
  "strictShape [] = True"
| "strictShape (True # rest) = False"
| "strictShape (False # True # rest) = strictShape rest"
| "strictShape [False] = True"
| "strictShape (False # False # rest) = strictShape (False # rest)"

fun looseShape :: "bool list \<Rightarrow> bool" where
  "looseShape (True # rest) = strictShape rest"
| "looseShape sh = strictShape sh"

fun stripTop :: "bool list \<Rightarrow> bool list" where
  "stripTop (True # rest) = rest"
| "stripTop sh = sh"

definition loose :: "ScopeEntry list \<Rightarrow> bool" where
  "loose s = looseShape (shape s)"

text \<open>
  What the induction on the depth of the walk proves of a visit function: a well-formed
  node visited on a strict stack shows loose stacks only and gives the stack back in its
  shape; a template or block visited on a loose stack consumes the marker on top.
\<close>

definition visitsWell :: "(Node option \<Rightarrow> Node \<Rightarrow> State \<Rightarrow> Node Walked) \<Rightarrow> bool" where
  "visitsWell visit \<longleftrightarrow>
     (\<forall>parent node st. wellFormed node \<and> strictShape (shape (scopeStack st)) \<longrightarrow>
        walkOK loose (\<lambda>_ st'. shape (scopeStack st') = shape (scopeStack st))
          (visit parent node st))"

definition visitsBlock :: "(Node option \<Rightarrow> Node \<Rightarrow> State \<Rightarrow> Node Walked) \<Rightarrow> bool" where
  "visitsBlock visit \<longleftrightarrow>
     (\<forall>parent node st. kind node \<in> {0, 1} \<and> wellFormed node
          \<and> looseShape (shape (scopeStack st)) \<longrightarrow>
        walkOK loose (\<lambda>_ st'. shape (scopeStack st') = stripTop (shape (scopeStack st)))
          (visit parent node st))"

text \<open>
  The invariant on the entries of a stack: every marker is at an index \<open>i + 1\<close> whose
  index \<open>i\<close> holds a parameter frame; and its weakening that admits a marker at index 0.
\<close>

definition markersBelowFrames :: "ScopeEntry list \<Rightarrow> bool" where
  "markersBelowFrames stack \<longleftrightarrow>
     (\<forall>i < length stack. isMarker (stack ! i) \<longrightarrow> 0 < i \<and> \<not> isMarker (stack ! (i - 1)))"

definition markersBelowFramesOrOnTop :: "ScopeEntry list \<Rightarrow> bool" where
  "markersBelowFramesOrOnTop stack \<longleftrightarrow>
     (\<forall>i < length stack. isMarker (stack ! i) \<longrightarrow> i = 0 \<or> \<not> isMarker (stack ! (i - 1)))"

text \<open>
  The marker that the block statement of \<open>block_template\<close> pushes.
\<close>

definition hello_marker :: ComponentBlockMarker where
  "hello_marker =
     \<lparr> resolution = plain_resolution ''hello-world'',
       live_argumentsAreComponents = [],
       exit = BlockStatementExit ''hello-world'' 0 \<rparr>"

text \<open>
  An element with a block parameter around a block statement, and a resolver whose rule for
  the element says that it yields a safe component.
\<close>

definition nested_template :: Node where
  "nested_template =
     Template []
       [ElementNode ''HelloWorld''
          [AttrNode ''@title'' (TextNode ''hi'' ((1, 19), (1, 23))) ((1, 12), (1, 23))]
          [] 
          [BlockStatement
             (PathExpression ''inner-thing'' False False [''inner-thing''] ((2, 5), (2, 16)))
             [] (Hash [] ((2, 16), (2, 16)))
             (Block [''y'']
                [MustacheStatement
                   (PathExpression ''component'' False False [''component''] ((3, 6), (3, 15)))
                   [PathExpression ''x'' False False [''x''] ((3, 16), (3, 17))]
                   (Hash [] ((3, 17), (3, 17))) ((3, 4), (3, 19))])
             None ((2, 2), (4, 18))]
          [] [''x''] ((1, 0), (5, 13))]"

definition yielding_resolver :: Resolver where
  "yielding_resolver =
     (example_resolver (toggles True False False) False)
       \<lparr> rules := \<lparr> files = Map.empty,
                    components =
                      [''HelloWorld'' \<mapsto>
                         \<lparr> yieldsSafeComponents = [SafeBool True], rule_yieldsArguments = [],
                           rule_argumentsAreComponents = [''title''], safeToIgnore = False,
                           safeInteriorPaths = [], disambiguate = Map.empty \<rparr>] \<rparr> \<rparr>"

text \<open>
  The depth of a tree, which bounds the nested visits of its walk. An attribute counts for
  3 at least, the depth of the mustache that the setter of
  \<^const>\<open>handleDynamicComponentArguments\<close> may put as its value.
\<close>

fun listMax :: "nat list \<Rightarrow> nat" where
  "listMax [] = 0"
| "listMax (x # xs) = max x (listMax xs)"

fun depth :: "Node \<Rightarrow> nat" where
  "depth (Template bps body) = Suc (listMax (map depth body))"
| "depth (Block bps body) = Suc (listMax (map depth body))"
| "depth (MustacheStatement p xs h l) =
     Suc (max (depth p) (max (listMax (map depth xs)) (depth h)))"
| "depth (BlockStatement p xs h b i l) =
     Suc (max (depth p) (max (listMax (map depth xs)) (max (depth h) (max (depth b)
       (case i of None \<Rightarrow> 0 | Some ib \<Rightarrow> depth ib)))))"
| "depth (ElementModifierStatement p xs h l) =
     Suc (max (depth p) (max (listMax (map depth xs)) (depth h)))"
| "depth (SubExpression p xs h l) =
     Suc (max (depth p) (max (listMax (map depth xs)) (depth h)))"
| "depth (ElementNode tag attrs mods children comments bps l) =
     Suc (max (listMax (map depth attrs)) (max (listMax (map depth mods))
       (max (listMax (map depth children)) (listMax (map depth comments)))))"
| "depth (AttrNode name v l) = max 3 (Suc (depth v))"
| "depth (ConcatStatement parts l) = Suc (listMax (map depth parts))"
| "depth (Hash ps l) = Suc (listMax (map depth ps))"
| "depth (HashPair key v l) = Suc (depth v)"
| "depth node = Suc 0"

text \<open>
  A walk that was not cut by the bound.
\<close>

definition finishes :: "'a Walked \<Rightarrow> bool" where
  "finishes w \<longleftrightarrow> snd w \<noteq> OutOfFuel"

text \<open>
  The template
  \<^verbatim>\<open><HelloWorld as |x|>{{#each this.items as |x|}}{{component x}}{{/each}}</HelloWorld>\<close>.
\<close>

definition shadowing_template :: Node where
  "shadowing_template =
     Template []
       [ElementNode ''HelloWorld'' [] []
          [BlockStatement
             (PathExpression ''each'' False False [''each''] ((1, 24), (1, 28)))
             [PathExpression ''this.items'' True False [''items''] ((1, 29), (1, 39))]
             (Hash [] ((1, 39), (1, 39)))
             (Block [''x''] [component_x])
             None ((1, 21), (1, 68))]
          [] [''x''] ((1, 0), (1, 81))]"

section \<open>Properties of the scope stack\<close>

lemma indexOf_None: "indexOf xs x = None \<longleftrightarrow> x \<notin> set xs"
  by (induction xs) (auto split: option.splits)

lemma indexOf_Some: "indexOf xs x = Some i \<Longrightarrow> i < length xs \<and> xs ! i = x"
  by (induction xs arbitrary: i) (auto split: option.splits if_splits)

lemma split_nonempty: "split sep s \<noteq> []"
  by (induction s) (auto split: list.splits)

lemma matchedMarker_prefix_None:
  assumes "\<And>xs b n ys. pre = xs @ BlockParams b # Marker n # ys \<Longrightarrow> root \<notin> set b"
  shows "matchedMarker root (pre @ [BlockParams bp]) = None"
  using assms
proof (induction pre)
  case Nil
  then show ?case by simp
next
  case (Cons a pre)
  have tail: "\<And>xs b n ys. pre = xs @ BlockParams b # Marker n # ys \<Longrightarrow> root \<notin> set b"
  proof -
    fix xs b n ys
    assume "pre = xs @ BlockParams b # Marker n # ys"
    then have "a # pre = (a # xs) @ BlockParams b # Marker n # ys" by simp
    then show "root \<notin> set b" by (rule Cons.prems)
  qed
  have IH: "matchedMarker root (pre @ [BlockParams bp]) = None"
    by (rule Cons.IH) (rule tail)
  show ?case
  proof (cases a)
    case (Marker x)
    with IH show ?thesis by simp
  next
    case (BlockParams b)
    show ?thesis
    proof (cases pre)
      case Nil
      with BlockParams show ?thesis by simp
    next
      case (Cons c cs)
      show ?thesis
      proof (cases c)
        case (BlockParams x1)
        with Cons IH \<open>a = BlockParams b\<close> show ?thesis by simp
      next
        case (Marker x2)
        have "a # pre = [] @ BlockParams b # Marker x2 # cs"
          using Cons Marker \<open>a = BlockParams b\<close> by simp
        then have "root \<notin> set b" by (rule Cons.prems)
        then have "indexOf b root = None" by (simp add: indexOf_None)
        with Cons Marker IH \<open>a = BlockParams b\<close> show ?thesis by simp
      qed
    qed
  qed
qed

lemma scanStack_nearest:
  assumes "matchedMarker (parts ! 0) (pre @ [BlockParams bp]) = None"
    and "indexOf bp (parts ! 0) = Some idx"
  shows "scanStack parts (pre @ BlockParams bp # Marker m # outer) =
           (fst (checkMarker parts idx m),
            pre @ BlockParams bp # Marker (snd (checkMarker parts idx m)) # outer)"
  using assms
proof (induction pre)
  case Nil
  then show ?case by (simp add: case_prod_beta)
next
  case (Cons a pre)
  show ?case
  proof (cases a)
    case (Marker x)
    with Cons show ?thesis by simp
  next
    case (BlockParams b)
    show ?thesis
    proof (cases pre)
      case Nil
      with Cons BlockParams show ?thesis by (simp add: case_prod_beta)
    next
      case (Cons c cs)
      show ?thesis
      proof (cases c)
        case (BlockParams x1)
        with Cons Cons.prems Cons.IH \<open>a = BlockParams b\<close> show ?thesis by simp
      next
        case (Marker x2)
        with Cons Cons.prems Cons.IH \<open>a = BlockParams b\<close> show ?thesis
          by (simp split: option.splits)
      qed
    qed
  qed
qed

lemma scanStack_matched:
  "fst (scanStack parts stack) =
     (case matchedMarker (parts ! 0) stack of
        None \<Rightarrow> False
      | Some (idx, m) \<Rightarrow> fst (checkMarker parts idx m))"
  by (induction parts stack rule: scanStack.induct)
     (auto split: option.splits prod.splits)

text \<open>
  Among the frames that a marker follows, the search is a nearest-first one. For a name of
  at most two segments, when no marker-annotated frame nearer than \<open>bp\<close> binds the root,
  the answer is the one the check at the marker \<open>m\<close> of \<open>bp\<close> gives, whether it succeeds or
  fails, only that marker can change, and the entries \<open>outer\<close> beyond it are neither
  consulted nor changed. Frames that no marker follows are not covered by this lemma.
\<close>

lemma safeComponentInScope_nearest_marker:
  assumes "length (split (CHR ''.'') name) \<le> 2"
    and "root = split (CHR ''.'') name ! 0"
    and "\<And>xs b n ys. pre = xs @ BlockParams b # Marker n # ys \<Longrightarrow> root \<notin> set b"
    and "indexOf bp root = Some idx"
  shows "safeComponentInScope name (pre @ BlockParams bp # Marker m # outer) =
           (fst (checkMarker (split (CHR ''.'') name) idx m),
            pre @ BlockParams bp
                # Marker (snd (checkMarker (split (CHR ''.'') name) idx m)) # outer)"
proof -
  have none: "matchedMarker (split (CHR ''.'') name ! 0) (pre @ [BlockParams bp]) = None"
    using assms(2) assms(3) matchedMarker_prefix_None [of pre root bp] by blast
  have idx: "indexOf bp (split (CHR ''.'') name ! 0) = Some idx"
    using assms(2) assms(4) by simp
  show ?thesis
    using assms(1) scanStack_nearest [OF none idx, of m outer]
    by (simp add: safeComponentInScope_def Let_def)
qed

lemma safeComponentInScope_nearest_marker_witness:
  "safeComponentInScope ''x''
     ([BlockParams [''y''], Marker marker_safe]
        @ BlockParams [''w'', ''x''] # Marker marker_unsafe
        # [BlockParams [''x''], Marker marker_safe]) =
   (False,
    [BlockParams [''y''], Marker marker_safe]
        @ BlockParams [''w'', ''x''] # Marker marker_unsafe
        # [BlockParams [''x''], Marker marker_safe])"
proof -
  have a1: "length (split (CHR ''.'') ''x'') \<le> 2" by simp
  have a2: "''x'' = split (CHR ''.'') ''x'' ! 0" by simp
  have a3: "\<And>xs b n ys. [BlockParams [''y''], Marker marker_safe]
              = xs @ BlockParams b # Marker n # ys \<Longrightarrow> ''x'' \<notin> set b"
    by (auto simp: append_eq_Cons_conv Cons_eq_append_conv)
  have a4: "indexOf [''w'', ''x''] ''x'' = Some 1" by simp
  have chk: "checkMarker (split (CHR ''.'') ''x'') 1 marker_unsafe = (False, marker_unsafe)"
    by (simp add: checkMarker_def at_index_def marker_unsafe_def plain_resolution_def)
  show ?thesis
    using safeComponentInScope_nearest_marker [OF a1 a2 a3 a4,
        where m = marker_unsafe and outer = "[BlockParams [''x''], Marker marker_safe]"]
    by (simp only: chk fst_conv snd_conv)
qed

text \<open>
  A parameter frame that no marker follows is skipped by the search, also when it binds
  the root segment: the search goes on to the next marker-annotated frame.
\<close>

lemma safeComponentInScope_skips_unmarked_frame:
  "fst (safeComponentInScope ''x''
          [BlockParams [''x''], BlockParams [''x''], Marker marker_safe])"
  by (simp add: safeComponentInScope_def checkMarker_def at_index_def marker_safe_def
      plain_resolution_def Let_def)

text \<open>
  Claim C6, as stated: a two-segment path is never answered \<open>true\<close> when the entry of
  \<^verbatim>\<open>yieldsSafeComponents\<close> at the position of the root segment is a boolean. It fails for a
  marker whose \<^verbatim>\<open>yieldsArguments\<close> entry at that position is an object naming the field.
\<close>

theorem safeComponentInScope_boolean_entry_counterexample:
  "fst (safeComponentInScope ''h.title'' [BlockParams [''h''], Marker marker_forwarding])
   \<and> at_index (yieldsComponents (resolution marker_forwarding)) 0 = Some (SafeBool True)"
  by (simp add: safeComponentInScope_def checkMarker_def at_index_def marker_forwarding_def
      plain_resolution_def Let_def)

section \<open>Properties of the resolver\<close>


lemma allEnabled_fields [simp]:
  "rules (allEnabled r) = rules r" "filename (allEnabled r) = filename r"
  "auditHandler (allEnabled r) = auditHandler r" "camelCase (allEnabled r) = camelCase r"
  "bindImport (allEnabled r) = bindImport r" "contents (allEnabled r) = contents r"
  "appRoot (allEnabled r) = appRoot r"
  "allowUnsafeDynamicComponents (options (allEnabled r)) = allowUnsafeDynamicComponents (options r)"
  by (simp_all add: allEnabled_def)











lemma example_resolver_fields:
  "filename (example_resolver opts c) = ''/app/templates/application.hbs''"
  "contents (example_resolver opts c) = ''{{hello-world}}''"
  "appRoot (example_resolver opts c) = ''/app''"
  "options (example_resolver opts c) = opts"
  "auditHandler (example_resolver opts c) = c"
  "rules (example_resolver opts c) = \<lparr> files = Map.empty, components = Map.empty \<rparr>"
  "camelCase (example_resolver opts c) = camelCaseDashed"
  "bindImport (example_resolver opts c) = (\<lambda>spec hint. hint)"
  by (simp_all add: example_resolver_def)

lemma toggles_fields:
  "staticComponents (toggles c h t) = c" "staticHelpers (toggles c h t) = h"
  "staticModifiers (toggles c h t) = False" "allowUnsafeDynamicComponents (toggles c h t) = t"
  by (simp_all add: toggles_def)

lemma example_humanReadableFile:
  "humanReadableFile (example_resolver opts c) ''/app/templates/application.hbs''
     = ''templates/application.hbs''"
  by (simp add: humanReadableFile_def example_resolver_fields suffix_to_prefix)

lemma prefix_at_in_set: "prefix ''@'' s \<Longrightarrow> CHR ''@'' \<in> set s"
  by (auto simp: prefix_def)

lemma sublist_in_append_right: "sublist xs zs \<Longrightarrow> sublist xs (ys @ zs)"
  by (auto simp: sublist_append)

lemma sublist_in_append_left: "sublist xs ys \<Longrightarrow> sublist xs (ys @ zs)"
  by (auto simp: sublist_append)

lemma ambiguousDetail_mentions: "sublist ''is ambiguous'' (ambiguousDetail path capitalized)"
  unfolding ambiguousDetail_def
  apply (rule sublist_in_append_right)
  apply (rule sublist_in_append_right)
  apply (rule sublist_in_append_left)
  apply (simp add: sublist_Cons_right)
  done

lemma disagreeDetail_mentions: "sublist ''do not agree'' (disagreeDetail path capitalized)"
  unfolding disagreeDetail_def
  apply (rule sublist_in_append_right)+
  apply (simp add: sublist_Cons_right)
  done

lemma MustacheStatement_enter_ambiguous:
  assumes "\<not> rootInScope parts (scopeStack st)" "length parts \<le> 1"
    and "\<not> prefix ''@'' orig" "\<not> isAttrNode parent"
    and "orig \<notin> set builtInKeywords"
  shows "MustacheStatement_enter r parent
           (MustacheStatement (PathExpression orig False data parts pl) params hash l) st =
         (case targetHelperOrComponent r orig pl (params \<noteq> [] \<or> pairs hash \<noteq> []) st of
            Inl e \<Rightarrow> Inl e
          | Inr (res, st1) \<Rightarrow>
              (case emit r res setPath
                      (MustacheStatement (PathExpression orig False data parts pl) params hash l)
                      st1 of
                 Inl e \<Rightarrow> Inl e
               | Inr (node1, st2) \<Rightarrow>
                   (case res of
                      Some (Component c) \<Rightarrow>
                        (case handleDynamicComponentArguments r (original (nodePath node1))
                                (argumentsAreComponents c) (pairs hash) st2 of
                           Inl e \<Rightarrow> Inl e
                         | Inr (ps', st3) \<Rightarrow> Inr (setPairs node1 ps', st3))
                    | _ \<Rightarrow> Inr (node1, st2))))"
proof -
  have "orig \<noteq> ''component''" "orig \<noteq> ''helper''"
    using assms(5) by (auto simp: builtInKeywords_def)
  with assms show ?thesis
    by (simp add: MustacheStatement_enter_def Let_def)
qed

text \<open>
  Claim C1, amended. A top-level curly call with a bare callee (not in scope, not
  \<^verbatim>\<open>this\<close>, at most one part, no \<^verbatim>\<open>@\<close>, no slash), with no positional or named
  argument, that is not the value of an attribute, whose name is neither a built-in
  keyword nor marked \<^verbatim>\<open>safeToIgnore\<close>, and for which the rules of the file have no
  \<^verbatim>\<open>disambiguate\<close> entry, is reported as ambiguous whenever component or helper resolution
  is enabled: the error, whose detail says that the call is ambiguous, is thrown when no
  audit handler is registered and unsafe dynamic components are not allowed, it is handed
  to the audit handler when one is registered, and it is dropped, the call being left
  untouched, when no handler is registered and unsafe dynamic components are allowed. In
  no case is a component or helper bound. The camel-cased name must not be empty, since
  \<^verbatim>\<open>capitalize\<close> fails on the empty word.
\<close>

theorem bare_curly_without_arguments:
  assumes "\<not> rootInScope parts (scopeStack st)" and "length parts \<le> 1"
    and "CHR ''@'' \<notin> set orig" and "CHR ''/'' \<notin> set orig"
    and "\<not> isAttrNode parent"
    and "pairs hash = []"
    and "staticComponentsEnabled r \<or> staticHelpersEnabled r"
    and "orig \<notin> set builtInKeywords" and "\<not> isIgnoredComponent r orig"
    and "ownDisambiguation r orig = None"
    and "capitalize (camelCase r orig) = Inr capitalized"
  shows "MustacheStatement_enter r parent
           (MustacheStatement (PathExpression orig False data parts pl) [] hash l) st =
         (if \<not> auditHandler r \<and> \<not> allowUnsafeDynamicComponents (options r) then
            Inl (TemplateResolverError
                   (''unsupported ambiguous syntax: '' @ ambiguousDetail orig capitalized
                      @ '' in '' @ humanReadableFile r (filename r))
                   pl (filename r))
          else if auditHandler r then
            Inr (MustacheStatement (PathExpression orig False data parts pl) [] hash l,
                 st\<lparr> audit := audit st @
                   [\<lparr> audit_message = ''unsupported ambiguous syntax'',
                      audit_filename = filename r,
                      audit_detail = ambiguousDetail orig capitalized,
                      audit_loc = pl, audit_source = contents r \<rparr>] \<rparr>)
          else Inr (MustacheStatement (PathExpression orig False data parts pl) [] hash l, st))
         \<and> sublist ''is ambiguous'' (ambiguousDetail orig capitalized)"
proof -
  have np: "\<not> prefix ''@'' orig" using assms(3) prefix_at_in_set by blast
  have t: "targetHelperOrComponent r orig pl False st =
             (case reportError r
                     \<lparr> message = ''unsupported ambiguous syntax'',
                       detail = ambiguousDetail orig capitalized, loc = pl \<rparr> st of
                Inl e \<Rightarrow> Inl e
              | Inr st' \<Rightarrow> Inr (None, st'))"
    using assms(3,4,7,8,9,10,11) by (auto simp: targetHelperOrComponent_def)
  show ?thesis
    using MustacheStatement_enter_ambiguous [OF assms(1) assms(2) np assms(5) assms(8),
        of r data pl "[]" hash l]
    by (simp add: assms(6) t reportError_def emit_def ambiguousDetail_mentions)
qed

theorem bare_curly_without_arguments_witness:
  "MustacheStatement_enter (example_resolver (toggles True False False) False) None
     (curly ''hello-world'' [] []) initial_state =
   Inl (TemplateResolverError
          (''unsupported ambiguous syntax: '' @ ambiguousDetail ''hello-world'' ''HelloWorld''
             @ '' in templates/application.hbs'')
          ((1, 2), (1, 13)) ''/app/templates/application.hbs'')"
proof -
  let ?r = "example_resolver (toggles True False False) False"
  have h1: "\<not> rootInScope [''hello-world''] (scopeStack initial_state)"
    by (simp add: rootInScope_def at_index_def initial_state_def)
  have h2: "length [''hello-world''] \<le> 1" by simp
  have h3: "CHR ''@'' \<notin> set ''hello-world''" by simp
  have h4: "CHR ''/'' \<notin> set ''hello-world''" by simp
  have h5: "\<not> isAttrNode None" by simp
  have h6: "pairs (Hash [] ((1, 0), (1, 0))) = []" by simp
  have h7: "staticComponentsEnabled ?r \<or> staticHelpersEnabled ?r"
    by (simp add: staticComponentsEnabled_def example_resolver_fields toggles_fields)
  have h8: "''hello-world'' \<notin> set builtInKeywords" by (simp add: builtInKeywords_def)
  have h9: "\<not> isIgnoredComponent ?r ''hello-world''"
    by (simp add: isIgnoredComponent_def example_resolver_fields)
  have h10: "ownDisambiguation ?r ''hello-world'' = None"
    by (simp add: ownDisambiguation_def findRules_def example_resolver_fields)
  have h11: "capitalize (camelCase ?r ''hello-world'') = Inr ''HelloWorld''"
    by (simp add: capitalize_def example_resolver_fields toUpperCase_def)
  show ?thesis
    using bare_curly_without_arguments [OF h1 h2 h3 h4 h5 h6 h7 h8 h9 h10 h11,
        of False "((1, 2), (1, 13))" "((1, 0), (1, 0))"]
    by (simp add: curly_def example_humanReadableFile example_resolver_fields toggles_fields)
qed

text \<open>
  Claim C1, as stated: every such call is reported by a hard error and never silently
  taken as data. With \<^verbatim>\<open>staticComponents\<close> and \<^verbatim>\<open>allowUnsafeDynamicComponents\<close> set and no
  audit handler, \<^verbatim>\<open>{{hello-world}}\<close> is left as it is: nothing is thrown and nothing is
  recorded.
\<close>

theorem bare_curly_tolerated_counterexample:
  "MustacheStatement_enter (example_resolver (toggles True False True) False) None
     (curly ''hello-world'' [] []) initial_state =
   Inr (curly ''hello-world'' [] [], initial_state)"
  by (simp add: MustacheStatement_enter_def curly_def rootInScope_def at_index_def
      initial_state_def targetHelperOrComponent_def staticComponentsEnabled_def
      staticHelpersEnabled_def example_resolver_fields toggles_fields builtInKeywords_def
      isIgnoredComponent_def findRules_def capitalize_def reportError_def emit_def
      ownDisambiguation_def)



text \<open>
  Claim C10. A mustache statement whose parent is an attribute node, whose callee passes
  the scope, \<^verbatim>\<open>this\<close>, dotted and \<^verbatim>\<open>@\<close> checks and which is not a \<^verbatim>\<open>component\<close> or
  \<^verbatim>\<open>helper\<close> keyword form with a positional argument, is resolved by \<^verbatim>\<open>targetHelper\<close>
  alone, with or without arguments: either its path is bound to the helper specifier, or it
  is left as it is. Nothing is thrown, nothing is handed to the audit handler, and no
  component is bound.
\<close>

theorem attribute_value_resolves_as_helper:
  assumes "isAttrNode parent"
    and "\<not> rootInScope parts (scopeStack st)" and "length parts \<le> 1"
    and "\<not> prefix ''@'' orig"
    and "\<not> (orig = ''component'' \<and> params \<noteq> [])"
    and "\<not> (orig = ''helper'' \<and> params \<noteq> [])"
  shows "MustacheStatement_enter r parent
           (MustacheStatement (PathExpression orig False data parts pl) params hash l) st =
         (if staticHelpersEnabled r \<and> orig \<notin> set builtInKeywords then
            Inr (MustacheStatement
                   (builders_path
                      (bindImport r (''#embroider_compat/helpers/'' @ orig) (nameHintOf orig)))
                   params hash l,
                 st\<lparr> bound := bound st
                        @ [(''#embroider_compat/helpers/'' @ orig, nameHintOf orig)] \<rparr>)
          else Inr (MustacheStatement (PathExpression orig False data parts pl) params hash l,
                    st))"
  using assms
  by (auto simp: MustacheStatement_enter_def emit_def targetHelper_def)

theorem attribute_value_resolves_as_helper_witness:
  "MustacheStatement_enter (example_resolver (toggles True True False) False)
     (Some (AttrNode ''class'' (curly ''my-helper'' [NumberLiteral 1 ((1, 22), (1, 23))] [])
              ((1, 5), (1, 25))))
     (curly ''my-helper'' [NumberLiteral 1 ((1, 22), (1, 23))] []) initial_state =
   Inr (MustacheStatement (builders_path ''my-helper_'')
          [NumberLiteral 1 ((1, 22), (1, 23))] (Hash [] ((1, 0), (1, 0))) ((1, 0), (1, 0)),
        initial_state\<lparr> bound := [(''#embroider_compat/helpers/my-helper'', ''my-helper_'')] \<rparr>)"
proof -
  let ?r = "example_resolver (toggles True True False) False"
  let ?p = "Some (AttrNode ''class'' (curly ''my-helper'' [NumberLiteral 1 ((1, 22), (1, 23))] [])
              ((1, 5), (1, 25)))"
  have h1: "isAttrNode ?p" by simp
  have h2: "\<not> rootInScope [''my-helper''] (scopeStack initial_state)"
    by (simp add: rootInScope_def at_index_def initial_state_def)
  have h3: "length [''my-helper''] \<le> 1" by simp
  have h4: "\<not> prefix ''@'' ''my-helper''" by simp
  have h5: "\<not> (''my-helper'' = ''component'' \<and> [NumberLiteral 1 ((1, 22), (1, 23))] \<noteq> [])"
    by simp
  have h6: "\<not> (''my-helper'' = ''helper'' \<and> [NumberLiteral 1 ((1, 22), (1, 23))] \<noteq> [])"
    by simp
  have k: "''my-helper'' \<notin> set builtInKeywords" by (simp add: builtInKeywords_def)
  have e: "staticHelpersEnabled ?r"
    by (simp add: staticHelpersEnabled_def example_resolver_fields toggles_fields)
  show ?thesis
    using attribute_value_resolves_as_helper [OF h1 h2 h3 h4 h5 h6,
        of ?r False "((1, 2), (1, 11))" "Hash [] ((1, 0), (1, 0))" "((1, 0), (1, 0))"] k e
    by (simp add: curly_def nameHintOf_def example_resolver_fields initial_state_def)
qed

lemma ambiguous_specifier_distinct:
  "''#embroider_compat/ambiguous/'' @ path \<noteq> ''#embroider_compat/components/'' @ name"
  by simp

text \<open>
  Claim C3, amended. With \<^verbatim>\<open>staticComponents\<close> off, \<^verbatim>\<open>staticHelpers\<close> on and no audit
  handler, \<^verbatim>\<open>targetHelperOrComponent\<close> without arguments never returns a component; it
  returns no resolution for a built-in keyword, an ignored name and a name disambiguated as
  data or as component; it returns the helper for a name disambiguated as helper; and for
  any other name it reports an ambiguity error (the no-argument one when the name has no
  slash and no \<^verbatim>\<open>@\<close>), which is thrown unless unsafe dynamic components are allowed, in
  which case nothing is resolved.
\<close>

theorem helpers_only_bare_curly:
  assumes "\<not> staticComponents (options r)" and "staticHelpers (options r)"
    and "\<not> auditHandler r"
  shows "(\<forall>c st'. targetHelperOrComponent r path l False st \<noteq> Inr (Some (Component c), st'))
       \<and> (path \<in> set builtInKeywords \<or> isIgnoredComponent r path
            \<or> ownDisambiguation r path = Some AsData
            \<or> ownDisambiguation r path = Some AsComponent \<longrightarrow>
            targetHelperOrComponent r path l False st = Inr (None, st))
       \<and> (path \<notin> set builtInKeywords \<and> \<not> isIgnoredComponent r path
            \<and> ownDisambiguation r path = Some AsHelper \<longrightarrow>
            targetHelperOrComponent r path l False st =
              Inr (Some (Helper (''#embroider_compat/helpers/'' @ path) (nameHintOf path)), st))
       \<and> (path \<notin> set builtInKeywords \<and> \<not> isIgnoredComponent r path
            \<and> ownDisambiguation r path = None
            \<and> capitalize (camelCase r path) = Inr capitalized \<longrightarrow>
            targetHelperOrComponent r path l False st =
              (if allowUnsafeDynamicComponents (options r) then Inr (None, st)
               else Inl (TemplateResolverError
                           ((if CHR ''/'' \<notin> set path \<and> CHR ''@'' \<notin> set path
                             then ''unsupported ambiguous syntax: ''
                                    @ ambiguousDetail path capitalized
                             else ''unsupported ambiguity between helper and component: ''
                                    @ disagreeDetail path capitalized)
                              @ '' in '' @ humanReadableFile r (filename r))
                           l (filename r))))"
proof -
  have en: "\<not> staticComponentsEnabled r" "staticHelpersEnabled r"
    using assms by (simp_all add: staticComponentsEnabled_def staticHelpersEnabled_def)
  have tc: "targetComponent r path = None"
    using en by (simp add: targetComponent_def)
  have a: "\<forall>c st'. targetHelperOrComponent r path l False st \<noteq> Inr (Some (Component c), st')"
    using en tc
    by (auto simp: targetHelperOrComponent_def targetHelper_def reportError_def
        split: option.splits Disambiguation.splits sum.splits if_splits)
  have b: "path \<in> set builtInKeywords \<or> isIgnoredComponent r path
            \<or> ownDisambiguation r path = Some AsData
            \<or> ownDisambiguation r path = Some AsComponent \<longrightarrow>
            targetHelperOrComponent r path l False st = Inr (None, st)"
    using en tc by (auto simp: targetHelperOrComponent_def)
  have c: "path \<notin> set builtInKeywords \<and> \<not> isIgnoredComponent r path
            \<and> ownDisambiguation r path = Some AsHelper \<longrightarrow>
            targetHelperOrComponent r path l False st =
              Inr (Some (Helper (''#embroider_compat/helpers/'' @ path) (nameHintOf path)), st)"
    using en by (auto simp: targetHelperOrComponent_def targetHelper_def)
  have d: "path \<notin> set builtInKeywords \<and> \<not> isIgnoredComponent r path
            \<and> ownDisambiguation r path = None
            \<and> capitalize (camelCase r path) = Inr capitalized \<longrightarrow>
            targetHelperOrComponent r path l False st =
              (if allowUnsafeDynamicComponents (options r) then Inr (None, st)
               else Inl (TemplateResolverError
                           ((if CHR ''/'' \<notin> set path \<and> CHR ''@'' \<notin> set path
                             then ''unsupported ambiguous syntax: ''
                                    @ ambiguousDetail path capitalized
                             else ''unsupported ambiguity between helper and component: ''
                                    @ disagreeDetail path capitalized)
                              @ '' in '' @ humanReadableFile r (filename r))
                           l (filename r)))"
    using en assms(3) by (auto simp: targetHelperOrComponent_def reportError_def)
  from a b c d show ?thesis by blast
qed

theorem helpers_only_bare_curly_witness:
  "targetHelperOrComponent (example_resolver (toggles False True False) False)
     ''hello-world'' ((1, 2), (1, 13)) False initial_state =
   Inl (TemplateResolverError
          (''unsupported ambiguous syntax: '' @ ambiguousDetail ''hello-world'' ''HelloWorld''
             @ '' in templates/application.hbs'')
          ((1, 2), (1, 13)) ''/app/templates/application.hbs'')"
proof -
  let ?r = "example_resolver (toggles False True False) False"
  have h: "\<not> staticComponents (options ?r)" "staticHelpers (options ?r)" "\<not> auditHandler ?r"
    by (simp_all add: example_resolver_fields toggles_fields)
  have k: "''hello-world'' \<notin> set builtInKeywords" by (simp add: builtInKeywords_def)
  have i: "\<not> isIgnoredComponent ?r ''hello-world''"
    by (simp add: isIgnoredComponent_def example_resolver_fields)
  have d: "ownDisambiguation ?r ''hello-world'' = None"
    by (simp add: ownDisambiguation_def findRules_def example_resolver_fields)
  have c: "capitalize (camelCase ?r ''hello-world'') = Inr ''HelloWorld''"
    by (simp add: capitalize_def example_resolver_fields toUpperCase_def)
  have f: "\<not> allowUnsafeDynamicComponents (options ?r)"
          "humanReadableFile ?r (filename ?r) = ''templates/application.hbs''"
          "filename ?r = ''/app/templates/application.hbs''"
    by (simp_all add: example_resolver_fields toggles_fields example_humanReadableFile)
  show ?thesis
    using helpers_only_bare_curly [OF h, where path = "''hello-world''"
            and l = "((1, 2), (1, 13))" and st = initial_state
            and capitalized = "''HelloWorld''"] k i d c f
    by simp
qed

text \<open>
  Claim C3, as stated: with \<^verbatim>\<open>staticComponents\<close> off and \<^verbatim>\<open>staticHelpers\<close> on, a bare
  curly call without arguments never gives an error. \<^verbatim>\<open>{{hello-world}}\<close> gives the
  ambiguity error.
\<close>

theorem helpers_only_bare_curly_counterexample:
  "MustacheStatement_enter (example_resolver (toggles False True False) False) None
     (curly ''hello-world'' [] []) initial_state =
   Inl (TemplateResolverError
          (''unsupported ambiguous syntax: '' @ ambiguousDetail ''hello-world'' ''HelloWorld''
             @ '' in templates/application.hbs'')
          ((1, 2), (1, 13)) ''/app/templates/application.hbs'')"
  by (simp add: MustacheStatement_enter_def curly_def rootInScope_def at_index_def
      initial_state_def targetHelperOrComponent_def staticComponentsEnabled_def
      staticHelpersEnabled_def example_resolver_fields toggles_fields builtInKeywords_def
      isIgnoredComponent_def ownDisambiguation_def findRules_def capitalize_def
      toUpperCase_def reportError_def example_humanReadableFile)

lemma handleComponentHelper_audit_unchanged:
  "audit (snd (handleComponentHelper r param implied st)) = audit st
   \<and> bound (snd (handleComponentHelper r param implied st)) = bound st
   \<and> captured (snd (handleComponentHelper r param implied st)) = captured st"
  by (induction r param implied st rule: handleComponentHelper.induct)
     (simp_all add: resolveLocator_def split: prod.splits)

lemma tolerant_reportError:
  "\<not> auditHandler r \<Longrightarrow> allowUnsafeDynamicComponents (options r) \<Longrightarrow>
     reportError r dep st = Inr st"
  by (simp add: reportError_def)

lemma tolerant_emit:
  assumes "\<not> auditHandler r" and "allowUnsafeDynamicComponents (options r)"
  shows "\<exists>n st'. emit r res setter node st = Inr (n, st') \<and> audit st' = audit st"
  using assms
  by (auto simp: emit_def tolerant_reportError split: option.splits Resolution.splits)

lemma tolerant_handleDynamicComponentArguments:
  assumes "\<not> auditHandler r" and "allowUnsafeDynamicComponents (options r)"
  shows "\<exists>as st'. handleDynamicComponentArguments r c names attrs st = Inr (as, st')
           \<and> audit st' = audit st"
  using assms
proof (induction r c names attrs st rule: handleDynamicComponentArguments.induct)
  case (1 r componentName attributes st)
  then show ?case by simp
next
  case (2 r componentName name names attributes st)
  show ?case
  proof (cases "findIndex (attrMatches name) attributes")
    case None
    with 2 show ?thesis by simp
  next
    case (Some i)
    obtain res st1 where h: "handleComponentHelper r (attrValue (attributes ! i))
                               (Some (componentName, name)) st = (res, st1)"
      by (cases "handleComponentHelper r (attrValue (attributes ! i))
                   (Some (componentName, name)) st") auto
    have a1: "audit st1 = audit st"
      using handleComponentHelper_audit_unchanged
              [of r "attrValue (attributes ! i)" "Some (componentName, name)" st] h
      by simp
    obtain attr' st2 where e: "emit r res setValue (attributes ! i) st1 = Inr (attr', st2)"
        and a2: "audit st2 = audit st1"
      using tolerant_emit [OF "2.prems", of res setValue "attributes ! i" st1] by blast
    have "\<exists>as st'. handleDynamicComponentArguments r componentName names
                      (attributes[i := attr']) st2 = Inr (as, st') \<and> audit st' = audit st2"
      using "2.IH"(2) [OF Some refl h [symmetric] refl e refl] "2.prems" by blast
    with Some h e a1 a2 show ?thesis by auto
  qed
qed

lemma tolerant_targetHelperOrComponent:
  assumes "\<not> auditHandler r" and "allowUnsafeDynamicComponents (options r)"
  shows "targetHelperOrComponent r path l hasArgs st = Inl TypeError
         \<or> (\<exists>res. targetHelperOrComponent r path l hasArgs st = Inr (res, st))"
  using assms
  by (auto simp: targetHelperOrComponent_def tolerant_reportError capitalize_def Let_def
      split: option.splits Disambiguation.splits list.splits)

lemma tolerant_MustacheStatement_enter:
  assumes "\<not> auditHandler r" and "allowUnsafeDynamicComponents (options r)"
  shows "MustacheStatement_enter r parent node st = Inl TypeError
         \<or> (\<exists>n st'. MustacheStatement_enter r parent node st = Inr (n, st')
                \<and> audit st' = audit st)"
proof (cases node)
  case (MustacheStatement path params hash l)
  show ?thesis
  proof (cases path)
    case (PathExpression orig this data parts pl)
    have A: "\<And>res setter nd s. \<exists>n st'. emit r res setter nd s = Inr (n, st') \<and> audit st' = audit s"
      using tolerant_emit [OF assms] by blast
    have H: "\<And>p. audit (snd (handleComponentHelper r p None st)) = audit st"
      using handleComponentHelper_audit_unchanged by blast
    consider (skip) "rootInScope parts (scopeStack st) \<or> this \<or> length parts > 1 \<or> prefix ''@'' orig"
      | (comp) "\<not> (rootInScope parts (scopeStack st) \<or> this \<or> length parts > 1 \<or> prefix ''@'' orig)"
               "orig = ''component'' \<and> params \<noteq> []"
      | (hlp) "\<not> (rootInScope parts (scopeStack st) \<or> this \<or> length parts > 1 \<or> prefix ''@'' orig)"
               "\<not> (orig = ''component'' \<and> params \<noteq> [])" "orig = ''helper'' \<and> params \<noteq> []"
      | (attr) "\<not> (rootInScope parts (scopeStack st) \<or> this \<or> length parts > 1 \<or> prefix ''@'' orig)"
               "\<not> (orig = ''component'' \<and> params \<noteq> [])" "\<not> (orig = ''helper'' \<and> params \<noteq> [])"
               "isAttrNode parent"
      | (amb) "\<not> (rootInScope parts (scopeStack st) \<or> this \<or> length parts > 1 \<or> prefix ''@'' orig)"
               "\<not> (orig = ''component'' \<and> params \<noteq> [])" "\<not> (orig = ''helper'' \<and> params \<noteq> [])"
               "\<not> isAttrNode parent"
      by blast
    then show ?thesis
    proof cases
      case skip
      then show ?thesis
        using MustacheStatement PathExpression by (auto simp: MustacheStatement_enter_def)
    next
      case comp
      obtain res st1 where h: "handleComponentHelper r (params ! 0) None st = (res, st1)"
        by (cases "handleComponentHelper r (params ! 0) None st") auto
      have "audit st1 = audit st" using H [of "params ! 0"] h by simp
      moreover obtain n st' where "emit r res setParam0 node st1 = Inr (n, st')"
          "audit st' = audit st1" using A by blast
      ultimately show ?thesis
        using comp h MustacheStatement PathExpression
        by (auto simp: MustacheStatement_enter_def)
    next
      case hlp
      obtain n st' where "emit r (handleDynamicHelper r (params ! 0)) setParam0 node st = Inr (n, st')"
          "audit st' = audit st" using A by blast
      then show ?thesis
        using hlp MustacheStatement PathExpression
        by (auto simp: MustacheStatement_enter_def)
    next
      case attr
      obtain n st' where "emit r (targetHelper r orig) setPath node st = Inr (n, st')"
          "audit st' = audit st" using A by blast
      then show ?thesis
        using attr MustacheStatement PathExpression
        by (auto simp: MustacheStatement_enter_def)
    next
      case amb
      let ?t = "targetHelperOrComponent r orig pl (params \<noteq> [] \<or> pairs hash \<noteq> []) st"
      from tolerant_targetHelperOrComponent [OF assms, of orig pl "params \<noteq> [] \<or> pairs hash \<noteq> []" st]
      consider (te) "?t = Inl TypeError" | (ok) res where "?t = Inr (res, st)" by blast
      then show ?thesis
      proof cases
        case te
        then show ?thesis
          using amb MustacheStatement PathExpression
          by (auto simp: MustacheStatement_enter_def)
      next
        case ok
        obtain n1 st2 where e: "emit r res setPath node st = Inr (n1, st2)"
            and a2: "audit st2 = audit st" using A by blast
        show ?thesis
        proof (cases res)
          case None
          with ok e a2 show ?thesis
            using amb MustacheStatement PathExpression
            by (auto simp: MustacheStatement_enter_def)
        next
          case (Some x)
          show ?thesis
          proof (cases x)
            case (Component c)
            obtain as st3 where d: "handleDynamicComponentArguments r (original (nodePath n1))
                   (argumentsAreComponents c) (pairs hash) st2 = Inr (as, st3)"
                and a3: "audit st3 = audit st2"
              using tolerant_handleDynamicComponentArguments [OF assms] by blast
            with ok e a2 Some Component show ?thesis
              using amb MustacheStatement PathExpression
              by (auto simp: MustacheStatement_enter_def)
          qed (use ok e a2 Some amb MustacheStatement PathExpression in
                \<open>auto simp: MustacheStatement_enter_def\<close>)
        qed
      qed
    qed
  qed (use MustacheStatement in \<open>auto simp: MustacheStatement_enter_def\<close>)
qed (auto simp: MustacheStatement_enter_def)

text \<open>
  Claim C4, as stated: only the unsafe-dynamic class can be dropped. With
  \<^verbatim>\<open>allowUnsafeDynamicComponents\<close> set and no audit handler, the with-arguments ambiguity
  error of \<^verbatim>\<open>{{hello-world arg=1}}\<close> under \<^verbatim>\<open>staticComponents\<close> alone is dropped; without
  the setting it is thrown.
\<close>

theorem ambiguity_error_dropped_counterexample:
  "MustacheStatement_enter (example_resolver (toggles True False True) False) None
     (curly ''hello-world'' [] [arg_pair]) initial_state =
   Inr (curly ''hello-world'' [] [arg_pair], initial_state)
   \<and> MustacheStatement_enter (example_resolver (toggles True False False) False) None
     (curly ''hello-world'' [] [arg_pair]) initial_state =
   Inl (TemplateResolverError
          (''unsupported ambiguity between helper and component: ''
             @ disagreeDetail ''hello-world'' ''HelloWorld''
             @ '' in templates/application.hbs'')
          ((1, 2), (1, 13)) ''/app/templates/application.hbs'')"
  by (simp add: MustacheStatement_enter_def curly_def rootInScope_def at_index_def
      initial_state_def targetHelperOrComponent_def staticComponentsEnabled_def
      staticHelpersEnabled_def example_resolver_fields toggles_fields builtInKeywords_def
      isIgnoredComponent_def ownDisambiguation_def findRules_def capitalize_def
      toUpperCase_def reportError_def example_humanReadableFile emit_def arg_pair_def)

section \<open>Two-segment paths and shadowing\<close>

text \<open>
  When no marker-annotated frame binds the root the stack is returned as it was; and the
  nearest such frame is the one the search matches.
\<close>

lemma scanStack_unmatched:
  "matchedMarker (parts ! 0) stack = None \<Longrightarrow> scanStack parts stack = (False, stack)"
  by (induction parts stack rule: scanStack.induct) (auto split: option.splits prod.splits)

lemma matchedMarker_nearest:
  assumes "matchedMarker root (pre @ [BlockParams bp]) = None"
    and "indexOf bp root = Some idx"
  shows "matchedMarker root (pre @ BlockParams bp # Marker m # outer) = Some (idx, m)"
  using assms
proof (induction pre)
  case Nil
  then show ?case by simp
next
  case (Cons a pre)
  show ?case
  proof (cases a)
    case (Marker x)
    with Cons show ?thesis by simp
  next
    case (BlockParams b)
    show ?thesis
    proof (cases pre)
      case Nil
      with Cons BlockParams show ?thesis by simp
    next
      case (Cons c cs)
      show ?thesis
      proof (cases c)
        case (BlockParams x1)
        with Cons Cons.prems Cons.IH \<open>a = BlockParams b\<close> show ?thesis by simp
      next
        case (Marker x2)
        with Cons Cons.prems Cons.IH \<open>a = BlockParams b\<close> show ?thesis
          by (simp split: option.splits)
      qed
    qed
  qed
qed

text \<open>
  Claim C6, amended. For a two-segment path \<open>root.field\<close> the answer is \<open>true\<close> exactly when
  a marker-annotated frame binds \<open>root\<close> and, at the nearest such marker and the position
  of \<open>root\<close>, either the \<^verbatim>\<open>yieldsSafeComponents\<close> entry is an object that maps \<open>field\<close> to
  \<open>true\<close>, or that entry is not an object and the \<^verbatim>\<open>yieldsArguments\<close> entry is an object
  that names a source argument for \<open>field\<close>. In that last case the source argument is
  appended to the working \<^verbatim>\<open>argumentsAreComponents\<close> of that marker; in every other case
  the stack is left as it was.
\<close>

theorem two_segment_path_safety:
  assumes "split (CHR ''.'') name = [root, field]"
  shows "(fst (safeComponentInScope name stack) \<longleftrightarrow>
           (\<exists>idx m. matchedMarker root stack = Some (idx, m) \<and>
              (case at_index (yieldsComponents (resolution m)) idx of
                 Some (SafeMap entry) \<Rightarrow> map_of entry field = Some True
               | _ \<Rightarrow>
                 (case at_index (yieldsArguments (resolution m)) idx of
                    Some (ArgMap argsEntry) \<Rightarrow> map_of argsEntry field \<noteq> None
                  | _ \<Rightarrow> False))))
       \<and> (matchedMarker root stack = None \<longrightarrow> snd (safeComponentInScope name stack) = stack)
       \<and> (\<forall>pre bp m outer idx.
            stack = pre @ BlockParams bp # Marker m # outer
            \<and> (\<forall>xs b n ys. pre = xs @ BlockParams b # Marker n # ys \<longrightarrow> root \<notin> set b)
            \<and> indexOf bp root = Some idx \<longrightarrow>
            matchedMarker root stack = Some (idx, m)
            \<and> snd (safeComponentInScope name stack) =
                pre @ BlockParams bp
                  # Marker
                      (case at_index (yieldsComponents (resolution m)) idx of
                         Some (SafeMap entry) \<Rightarrow> m
                       | _ \<Rightarrow>
                         (case at_index (yieldsArguments (resolution m)) idx of
                            Some (ArgMap argsEntry) \<Rightarrow>
                              (case map_of argsEntry field of
                                 Some sourceArg \<Rightarrow>
                                   m\<lparr> live_argumentsAreComponents :=
                                        live_argumentsAreComponents m @ [sourceArg] \<rparr>
                               | None \<Rightarrow> m)
                          | _ \<Rightarrow> m))
                  # outer)"
proof -
  have eq: "safeComponentInScope name stack = scanStack [root, field] stack" for stack
    using assms by (simp add: safeComponentInScope_def)
  have a: "fst (safeComponentInScope name stack) \<longleftrightarrow>
           (\<exists>idx m. matchedMarker root stack = Some (idx, m) \<and>
              (case at_index (yieldsComponents (resolution m)) idx of
                 Some (SafeMap entry) \<Rightarrow> map_of entry field = Some True
               | _ \<Rightarrow>
                 (case at_index (yieldsArguments (resolution m)) idx of
                    Some (ArgMap argsEntry) \<Rightarrow> map_of argsEntry field \<noteq> None
                  | _ \<Rightarrow> False)))"
  proof -
    have "fst (safeComponentInScope name stack) =
            (case matchedMarker root stack of
               None \<Rightarrow> False
             | Some (idx, m) \<Rightarrow> fst (checkMarker [root, field] idx m))"
      using scanStack_matched [of "[root, field]" stack] by (simp add: eq)
    then show ?thesis
      by (auto simp: checkMarker_def split: option.splits SafeEntry.splits ArgEntry.splits)
  qed
  have b: "matchedMarker root stack = None \<longrightarrow> snd (safeComponentInScope name stack) = stack"
    using scanStack_unmatched [of "[root, field]" stack] by (simp add: eq)
  have c: "matchedMarker root stack = Some (idx, m)
            \<and> snd (safeComponentInScope name stack) =
                pre @ BlockParams bp
                  # Marker
                      (case at_index (yieldsComponents (resolution m)) idx of
                         Some (SafeMap entry) \<Rightarrow> m
                       | _ \<Rightarrow>
                         (case at_index (yieldsArguments (resolution m)) idx of
                            Some (ArgMap argsEntry) \<Rightarrow>
                              (case map_of argsEntry field of
                                 Some sourceArg \<Rightarrow>
                                   m\<lparr> live_argumentsAreComponents :=
                                        live_argumentsAreComponents m @ [sourceArg] \<rparr>
                               | None \<Rightarrow> m)
                          | _ \<Rightarrow> m))
                  # outer"
    if s: "stack = pre @ BlockParams bp # Marker m # outer"
      and n: "\<forall>xs b n ys. pre = xs @ BlockParams b # Marker n # ys \<longrightarrow> root \<notin> set b"
      and i: "indexOf bp root = Some idx"
    for pre bp m outer idx
  proof -
    have none: "matchedMarker root (pre @ [BlockParams bp]) = None"
      using n matchedMarker_prefix_None [of pre root bp] by blast
    have m: "matchedMarker root stack = Some (idx, m)"
      unfolding s by (rule matchedMarker_nearest [OF none i])
    have "scanStack [root, field] stack =
            (fst (checkMarker [root, field] idx m),
             pre @ BlockParams bp # Marker (snd (checkMarker [root, field] idx m)) # outer)"
      unfolding s using scanStack_nearest [of "[root, field]" pre bp idx m outer] none i
      by simp
    then have "snd (safeComponentInScope name stack) =
             pre @ BlockParams bp # Marker (snd (checkMarker [root, field] idx m)) # outer"
      by (simp add: eq)
    moreover have "snd (checkMarker [root, field] idx m) =
                      (case at_index (yieldsComponents (resolution m)) idx of
                         Some (SafeMap entry) \<Rightarrow> m
                       | _ \<Rightarrow>
                         (case at_index (yieldsArguments (resolution m)) idx of
                            Some (ArgMap argsEntry) \<Rightarrow>
                              (case map_of argsEntry field of
                                 Some sourceArg \<Rightarrow>
                                   m\<lparr> live_argumentsAreComponents :=
                                        live_argumentsAreComponents m @ [sourceArg] \<rparr>
                               | None \<Rightarrow> m)
                          | _ \<Rightarrow> m))"
      by (simp add: checkMarker_def split: option.splits SafeEntry.splits ArgEntry.splits)
    ultimately show ?thesis using m by simp
  qed
  from a b c show ?thesis by blast
qed

theorem two_segment_path_safety_witness:
  "split (CHR ''.'') ''h.title'' = [''h'', ''title'']
   \<and> safeComponentInScope ''h.title''
        [BlockParams [''y''], BlockParams [''h''], Marker marker_forwarding, BlockParams []]
     = (True,
        [BlockParams [''y''], BlockParams [''h''],
         Marker (marker_forwarding\<lparr> live_argumentsAreComponents := [''titleComponent''] \<rparr>),
         BlockParams []])
   \<and> snd (safeComponentInScope ''h.title'' [BlockParams [''h''], BlockParams []])
     = [BlockParams [''h''], BlockParams []]"
proof -
  have s: "split (CHR ''.'') ''h.title'' = [''h'', ''title'']" by simp
  let ?stack = "[BlockParams [''y''], BlockParams [''h''], Marker marker_forwarding,
                 BlockParams []]"
  have d: "?stack = [BlockParams [''y'']] @ BlockParams [''h''] # Marker marker_forwarding
                      # [BlockParams []]" by simp
  have n: "\<forall>xs b n ys. [BlockParams [''y'']] = xs @ BlockParams b # Marker n # ys
             \<longrightarrow> ''h'' \<notin> set b"
    by (auto simp: append_eq_Cons_conv Cons_eq_append_conv)
  have i: "indexOf [''h''] ''h'' = Some 0" by simp
  have u: "matchedMarker ''h'' [BlockParams [''h''], BlockParams []] = None" by simp
  note t = two_segment_path_safety [OF s, of ?stack]
  from t have "\<forall>pre bp m outer idx.
            ?stack = pre @ BlockParams bp # Marker m # outer
            \<and> (\<forall>xs b n ys. pre = xs @ BlockParams b # Marker n # ys \<longrightarrow> ''h'' \<notin> set b)
            \<and> indexOf bp ''h'' = Some idx \<longrightarrow>
            matchedMarker ''h'' ?stack = Some (idx, m)
            \<and> snd (safeComponentInScope ''h.title'' ?stack) =
                pre @ BlockParams bp
                  # Marker
                      (case at_index (yieldsComponents (resolution m)) idx of
                         Some (SafeMap entry) \<Rightarrow> m
                       | _ \<Rightarrow>
                         (case at_index (yieldsArguments (resolution m)) idx of
                            Some (ArgMap argsEntry) \<Rightarrow>
                              (case map_of argsEntry ''title'' of
                                 Some sourceArg \<Rightarrow>
                                   m\<lparr> live_argumentsAreComponents :=
                                        live_argumentsAreComponents m @ [sourceArg] \<rparr>
                               | None \<Rightarrow> m)
                          | _ \<Rightarrow> m))
                  # outer"
    by blast
  from this [rule_format, of "[BlockParams [''y'']]" "[''h'']" marker_forwarding
               "[BlockParams []]" 0] d n i
  have m: "matchedMarker ''h'' ?stack = Some (0, marker_forwarding)"
    and e: "snd (safeComponentInScope ''h.title'' ?stack) =
              [BlockParams [''y''], BlockParams [''h''],
               Marker (marker_forwarding\<lparr> live_argumentsAreComponents := [''titleComponent''] \<rparr>),
               BlockParams []]"
    by (simp_all add: at_index_def marker_forwarding_def plain_resolution_def)
  from t m have f: "fst (safeComponentInScope ''h.title'' ?stack)"
    by (simp add: at_index_def marker_forwarding_def plain_resolution_def)
  have g: "snd (safeComponentInScope ''h.title'' [BlockParams [''h''], BlockParams []])
             = [BlockParams [''h''], BlockParams []]"
    using two_segment_path_safety [OF s, of "[BlockParams [''h''], BlockParams []]"] u
    by blast
  from f e have "safeComponentInScope ''h.title'' ?stack =
      (True, [BlockParams [''y''], BlockParams [''h''],
               Marker (marker_forwarding\<lparr> live_argumentsAreComponents := [''titleComponent''] \<rparr>),
               BlockParams []])"
    by (cases "safeComponentInScope ''h.title'' ?stack") simp
  with s g show ?thesis by blast
qed

lemma yielding_resolver_fields:
  "filename yielding_resolver = ''/app/templates/application.hbs''"
  "options yielding_resolver = toggles True False False"
  "auditHandler yielding_resolver = False"
  "files (rules yielding_resolver) = Map.empty"
  "humanReadableFile yielding_resolver ''/app/templates/application.hbs''
     = ''templates/application.hbs''"
  by (simp_all add: yielding_resolver_def example_resolver_fields humanReadableFile_def
      suffix_to_prefix)

text \<open>
  Claim C5: the root segment is to be resolved against the nearest enclosing binding. The
  search skips a nearer frame that binds the root when no marker follows it: on the stack
  of \<^verbatim>\<open>{{component x}}\<close> inside \<^verbatim>\<open>{{#each this.items as |x|}}\<close> inside
  \<^verbatim>\<open><HelloWorld as |x|>\<close>, the item \<open>x\<close> of the loop is answered safe from the marker of
  the element, and the call is left as it is; the same item under the loop alone is not
  safe, and the call is reported.
\<close>

theorem shadowing_frame_without_marker:
  "safeComponentInScope ''x'' shadowing_stack = (True, shadowing_stack)
   \<and> safeComponentInScope ''x'' [BlockParams [''x''], BlockParams []]
       = (False, [BlockParams [''x''], BlockParams []])
   \<and> MustacheStatement_enter yielding_resolver None
        component_x (initial_state\<lparr> scopeStack := shadowing_stack \<rparr>)
       = Inr (component_x, initial_state\<lparr> scopeStack := shadowing_stack \<rparr>)
   \<and> MustacheStatement_enter yielding_resolver None
        component_x (initial_state\<lparr> scopeStack := [BlockParams [''x''], BlockParams []] \<rparr>)
       = Inl (TemplateResolverError
                ''Unsafe dynamic component: x in templates/application.hbs''
                ((1, 55), (1, 56)) ''/app/templates/application.hbs'')"
proof -
  let ?r = yielding_resolver
  have a: "safeComponentInScope ''x'' shadowing_stack = (True, shadowing_stack)"
    by (simp add: safeComponentInScope_def shadowing_stack_def checkMarker_def at_index_def
        hello_world_marker_def Let_def)
  have b: "safeComponentInScope ''x'' [BlockParams [''x''], BlockParams []]
             = (False, [BlockParams [''x''], BlockParams []])"
    by (simp add: safeComponentInScope_def Let_def)
  have s: "\<not> rootInScope [''component''] shadowing_stack"
          "\<not> rootInScope [''component''] [BlockParams [''x''], BlockParams []]"
    by (simp_all add: rootInScope_def at_index_def shadowing_stack_def)
  have c: "MustacheStatement_enter ?r None component_x
             (initial_state\<lparr> scopeStack := shadowing_stack \<rparr>)
           = Inr (component_x, initial_state\<lparr> scopeStack := shadowing_stack \<rparr>)"
    using s(1)
    by (simp add: MustacheStatement_enter_def component_x_def curly_def resolveLocator_def a
        emit_def)
  have d: "MustacheStatement_enter ?r None component_x
             (initial_state\<lparr> scopeStack := [BlockParams [''x''], BlockParams []] \<rparr>)
           = Inl (TemplateResolverError
                ''Unsafe dynamic component: x in templates/application.hbs''
                ((1, 55), (1, 56)) ''/app/templates/application.hbs'')"
    using s(2)
    by (simp add: MustacheStatement_enter_def component_x_def curly_def resolveLocator_def b
        emit_def targetComponentHelper_def staticComponentsEnabled_def
        yielding_resolver_fields toggles_fields findRules_def impliedMessage_def
        reportError_def)
  from a b c d show ?thesis by blast
qed

theorem shadowing_frame_without_marker_witness:
  "shadowing_stack ! 0 = BlockParams [''x''] \<and> shadowing_stack ! 1 = BlockParams [''x'']
   \<and> fst (safeComponentInScope ''x'' shadowing_stack)"
  using shadowing_frame_without_marker by (simp add: shadowing_stack_def)

section \<open>Curly calls with arguments\<close>

text \<open>
  Claim C2, amended. For a name that is a built-in keyword or ignored by a rule,
  \<^verbatim>\<open>targetHelperOrComponent\<close> gives no resolution and the visitor leaves the call as it is.
  For any other name, with arguments present, it applies the \<^verbatim>\<open>disambiguate\<close> entry of the
  file when there is one; otherwise, when component and helper resolution are both
  enabled, it returns a component whose specifier is in the \<^verbatim>\<open>ambiguous\<close> namespace, which
  differs from every specifier of the \<^verbatim>\<open>components\<close> namespace; otherwise, when exactly
  one of the two is enabled, it reports the error whose detail says that the two settings
  do not agree, which is thrown unless unsafe dynamic components are allowed, in which case
  it is dropped and nothing is resolved. The camel-cased name must not be empty, since
  \<^verbatim>\<open>capitalize\<close> fails on the empty word.
\<close>

theorem curly_call_with_arguments:
  "(path \<in> set builtInKeywords \<or> isIgnoredComponent r path \<longrightarrow>
      targetHelperOrComponent r path l True st = Inr (None, st)
      \<and> (\<not> isAttrNode parent
           \<and> \<not> (path = ''component'' \<and> params \<noteq> []) \<and> \<not> (path = ''helper'' \<and> params \<noteq> [])
           \<and> (params \<noteq> [] \<or> pairs hash \<noteq> []) \<longrightarrow>
          MustacheStatement_enter r parent
            (MustacheStatement (PathExpression path this data parts l) params hash nl) st =
          Inr (MustacheStatement (PathExpression path this data parts l) params hash nl, st)))
   \<and> (path \<notin> set builtInKeywords \<and> \<not> isIgnoredComponent r path \<longrightarrow>
        (\<forall>d. ownDisambiguation r path = Some d \<longrightarrow>
            targetHelperOrComponent r path l True st =
              Inr (case d of
                     AsComponent \<Rightarrow> map_option Component (targetComponent r path)
                   | AsHelper \<Rightarrow> targetHelper r path
                   | AsData \<Rightarrow> None, st))
      \<and> (ownDisambiguation r path = None
            \<and> staticComponentsEnabled r \<and> staticHelpersEnabled r \<longrightarrow>
            (\<exists>c. targetHelperOrComponent r path l True st = Inr (Some (Component c), st)
                \<and> specifier c = ''#embroider_compat/ambiguous/'' @ path
                \<and> (\<forall>name. specifier c \<noteq> ''#embroider_compat/components/'' @ name)))
      \<and> (ownDisambiguation r path = None
            \<and> staticComponentsEnabled r \<noteq> staticHelpersEnabled r
            \<and> capitalize (camelCase r path) = Inr capitalized \<longrightarrow>
            targetHelperOrComponent r path l True st =
              (if allowUnsafeDynamicComponents (options r) then Inr (None, st)
               else Inl (TemplateResolverError
                           (''unsupported ambiguity between helper and component: ''
                              @ disagreeDetail path capitalized
                              @ '' in '' @ humanReadableFile r (filename r))
                           l (filename r)))
            \<and> sublist ''do not agree'' (disagreeDetail path capitalized)))"
proof -
  have z: "targetHelperOrComponent r path l True st = Inr (None, st)"
    if "path \<in> set builtInKeywords \<or> isIgnoredComponent r path"
    using that by (auto simp: targetHelperOrComponent_def)
  have v: "MustacheStatement_enter r parent
            (MustacheStatement (PathExpression path this data parts l) params hash nl) st =
          Inr (MustacheStatement (PathExpression path this data parts l) params hash nl, st)"
    if "path \<in> set builtInKeywords \<or> isIgnoredComponent r path"
      and "\<not> isAttrNode parent"
      and "\<not> (path = ''component'' \<and> params \<noteq> [])" "\<not> (path = ''helper'' \<and> params \<noteq> [])"
      and "params \<noteq> [] \<or> pairs hash \<noteq> []"
    using that z by (auto simp: MustacheStatement_enter_def emit_def)
  have a: "\<forall>d. ownDisambiguation r path = Some d \<longrightarrow>
            targetHelperOrComponent r path l True st =
              Inr (case d of
                     AsComponent \<Rightarrow> map_option Component (targetComponent r path)
                   | AsHelper \<Rightarrow> targetHelper r path
                   | AsData \<Rightarrow> None, st)"
    if n: "path \<notin> set builtInKeywords" "\<not> isIgnoredComponent r path"
  proof (intro allI impI)
    fix d assume d: "ownDisambiguation r path = Some d"
    show "targetHelperOrComponent r path l True st =
              Inr (case d of
                     AsComponent \<Rightarrow> map_option Component (targetComponent r path)
                   | AsHelper \<Rightarrow> targetHelper r path
                   | AsData \<Rightarrow> None, st)"
    proof (cases "\<not> staticHelpersEnabled r \<and> \<not> staticComponentsEnabled r")
      case True
      then show ?thesis
        by (cases d) (simp_all add: targetHelperOrComponent_def targetComponent_def
            targetHelper_def)
    next
      case False
      with n d show ?thesis
        by (cases d) (auto simp: targetHelperOrComponent_def)
    qed
  qed
  have b: "ownDisambiguation r path = None
            \<and> staticComponentsEnabled r \<and> staticHelpersEnabled r \<longrightarrow>
            (\<exists>c. targetHelperOrComponent r path l True st = Inr (Some (Component c), st)
                \<and> specifier c = ''#embroider_compat/ambiguous/'' @ path
                \<and> (\<forall>name. specifier c \<noteq> ''#embroider_compat/components/'' @ name))"
    if "path \<notin> set builtInKeywords" "\<not> isIgnoredComponent r path"
    using that by (simp add: targetHelperOrComponent_def Let_def)
  have c: "ownDisambiguation r path = None
            \<and> staticComponentsEnabled r \<noteq> staticHelpersEnabled r
            \<and> capitalize (camelCase r path) = Inr capitalized \<longrightarrow>
            targetHelperOrComponent r path l True st =
              (if allowUnsafeDynamicComponents (options r) then Inr (None, st)
               else Inl (TemplateResolverError
                           (''unsupported ambiguity between helper and component: ''
                              @ disagreeDetail path capitalized
                              @ '' in '' @ humanReadableFile r (filename r))
                           l (filename r)))
            \<and> sublist ''do not agree'' (disagreeDetail path capitalized)"
    if "path \<notin> set builtInKeywords" "\<not> isIgnoredComponent r path"
    using that
    by (auto simp: targetHelperOrComponent_def reportError_def disagreeDetail_mentions
        staticComponentsEnabled_def staticHelpersEnabled_def)
  from z v a b c show ?thesis by blast
qed

theorem curly_call_with_arguments_witness:
  "(\<exists>c. targetHelperOrComponent (example_resolver (toggles True True False) False)
           ''hello-world'' ((1, 2), (1, 13)) True initial_state
         = Inr (Some (Component c), initial_state)
        \<and> specifier c = ''#embroider_compat/ambiguous/hello-world'')
   \<and> targetHelperOrComponent (example_resolver (toggles True False False) False)
         ''hello-world'' ((1, 2), (1, 13)) True initial_state
       = Inl (TemplateResolverError
                (''unsupported ambiguity between helper and component: ''
                   @ disagreeDetail ''hello-world'' ''HelloWorld''
                   @ '' in templates/application.hbs'')
                ((1, 2), (1, 13)) ''/app/templates/application.hbs'')
   \<and> targetHelperOrComponent example_rules_resolver
         ''known-helper'' ((1, 2), (1, 14)) True initial_state
       = Inr (Some (Helper ''#embroider_compat/helpers/known-helper'' ''known-helper_''),
              initial_state)
   \<and> MustacheStatement_enter (example_resolver (toggles True True False) False) None
        (curly ''input'' [] [value_pair]) initial_state
       = Inr (curly ''input'' [] [value_pair], initial_state)"
proof -
  let ?both = "example_resolver (toggles True True False) False"
  let ?one = "example_resolver (toggles True False False) False"
  have k: "''hello-world'' \<notin> set builtInKeywords" "''known-helper'' \<notin> set builtInKeywords"
          "''input'' \<in> set builtInKeywords"
    by (simp_all add: builtInKeywords_def)
  have i: "\<not> isIgnoredComponent ?both ''hello-world''"
          "\<not> isIgnoredComponent ?one ''hello-world''"
          "\<not> isIgnoredComponent example_rules_resolver ''known-helper''"
    by (simp_all add: isIgnoredComponent_def example_resolver_fields example_rules_resolver_def)
  have d: "ownDisambiguation ?both ''hello-world'' = None"
          "ownDisambiguation ?one ''hello-world'' = None"
          "ownDisambiguation example_rules_resolver ''known-helper'' = Some AsHelper"
    by (simp_all add: ownDisambiguation_def findRules_def example_resolver_fields
        example_rules_resolver_def)
  have e: "staticComponentsEnabled ?both" "staticHelpersEnabled ?both"
          "staticComponentsEnabled ?one" "\<not> staticHelpersEnabled ?one"
          "staticHelpersEnabled example_rules_resolver"
    by (simp_all add: staticComponentsEnabled_def staticHelpersEnabled_def
        example_resolver_fields toggles_fields example_rules_resolver_def)
  have c: "capitalize (camelCase ?one ''hello-world'') = Inr ''HelloWorld''"
    by (simp add: capitalize_def example_resolver_fields toUpperCase_def)
  have f: "\<not> allowUnsafeDynamicComponents (options ?one)"
          "humanReadableFile ?one (filename ?one) = ''templates/application.hbs''"
          "filename ?one = ''/app/templates/application.hbs''"
    by (simp_all add: example_resolver_fields toggles_fields example_humanReadableFile)
  have h: "targetHelper example_rules_resolver ''known-helper''
             = Some (Helper ''#embroider_compat/helpers/known-helper'' ''known-helper_'')"
    using e(5) k(2) by (simp add: targetHelper_def nameHintOf_def)
  have p: "pairs (Hash [value_pair] ((1, 0), (1, 0))) \<noteq> []" by simp
  have w1: "\<exists>c. targetHelperOrComponent ?both ''hello-world'' ((1, 2), (1, 13)) True
                  initial_state = Inr (Some (Component c), initial_state)
               \<and> specifier c = ''#embroider_compat/ambiguous/hello-world''"
    using curly_call_with_arguments [where r = ?both and path = "''hello-world''"
            and l = "((1, 2), (1, 13))" and st = initial_state
            and capitalized = "''HelloWorld''" and parent = None and params = "[]"
            and hash = "Hash [] ((1, 0), (1, 0))" and this = False and data = False
            and parts = "[''hello-world'']" and nl = "((1, 0), (1, 0))"]
          k(1) i(1) d(1) e(1,2)
    by auto
  have w2: "targetHelperOrComponent ?one ''hello-world'' ((1, 2), (1, 13)) True initial_state
       = Inl (TemplateResolverError
                (''unsupported ambiguity between helper and component: ''
                   @ disagreeDetail ''hello-world'' ''HelloWorld''
                   @ '' in templates/application.hbs'')
                ((1, 2), (1, 13)) ''/app/templates/application.hbs'')"
    using curly_call_with_arguments [where r = ?one and path = "''hello-world''"
            and l = "((1, 2), (1, 13))" and st = initial_state
            and capitalized = "''HelloWorld''" and parent = None and params = "[]"
            and hash = "Hash [] ((1, 0), (1, 0))" and this = False and data = False
            and parts = "[''hello-world'']" and nl = "((1, 0), (1, 0))"]
          k(1) i(2) d(2) e(3,4) c f
    by auto
  have w3: "targetHelperOrComponent example_rules_resolver
         ''known-helper'' ((1, 2), (1, 14)) True initial_state
       = Inr (Some (Helper ''#embroider_compat/helpers/known-helper'' ''known-helper_''),
              initial_state)"
    using curly_call_with_arguments [where r = example_rules_resolver
            and path = "''known-helper''"
            and l = "((1, 2), (1, 14))" and st = initial_state
            and capitalized = "''KnownHelper''" and parent = None and params = "[]"
            and hash = "Hash [] ((1, 0), (1, 0))" and this = False and data = False
            and parts = "[''known-helper'']" and nl = "((1, 0), (1, 0))"]
          k(2) i(3) d(3) h
    by auto
  have w4: "MustacheStatement_enter ?both None (curly ''input'' [] [value_pair]) initial_state
       = Inr (curly ''input'' [] [value_pair], initial_state)"
    using curly_call_with_arguments [where r = ?both and path = "''input''"
            and l = "((1, 2), (1, 7))" and st = initial_state
            and capitalized = "''Input''" and parent = None and params = "[]"
            and hash = "Hash [value_pair] ((1, 0), (1, 0))" and this = False and data = False
            and parts = "[''input'']" and nl = "((1, 0), (1, 0))"]
          k(3) p
    by (simp add: curly_def)
  from w1 w2 w3 w4 show ?thesis by blast
qed

text \<open>
  Claim C2, as stated: with exactly one of the two toggles enabled the error is
  unconditional. With \<^verbatim>\<open>staticHelpers\<close> alone, \<^verbatim>\<open>allowUnsafeDynamicComponents\<close> set and no
  audit handler, \<^verbatim>\<open>{{hello-world arg=1}}\<close> is left as it is: nothing is thrown and nothing
  is recorded.
\<close>

theorem disagreement_error_tolerated_counterexample:
  "MustacheStatement_enter (example_resolver (toggles False True True) False) None
     (curly ''hello-world'' [] [arg_pair]) initial_state =
   Inr (curly ''hello-world'' [] [arg_pair], initial_state)
   \<and> staticHelpers (options (example_resolver (toggles False True True) False))
   \<and> \<not> staticComponents (options (example_resolver (toggles False True True) False))
   \<and> \<not> auditHandler (example_resolver (toggles False True True) False)"
  by (simp add: MustacheStatement_enter_def curly_def rootInScope_def at_index_def
      initial_state_def targetHelperOrComponent_def staticComponentsEnabled_def
      staticHelpersEnabled_def example_resolver_fields toggles_fields builtInKeywords_def
      isIgnoredComponent_def ownDisambiguation_def findRules_def capitalize_def
      toUpperCase_def reportError_def example_humanReadableFile emit_def arg_pair_def)

section \<open>How errors are surfaced\<close>

text \<open>
  The getter fails exactly when some snippet cannot be parsed, and what it throws names
  such a snippet.
\<close>

lemma compileComponents_fails:
  "(\<exists>e. compileComponents lib rule entries cs = Inl e)
     \<longleftrightarrow> (\<exists>snippet \<in> fst ` set entries. snippetToDasherizedName lib snippet = None)"
proof (induction entries arbitrary: cs)
  case Nil
  then show ?case by simp
next
  case (Cons entry entries)
  obtain snippet rawRules where e: "entry = (snippet, rawRules)" by (cases entry)
  show ?case
  proof (cases "snippetToDasherizedName lib snippet")
    case None
    with e show ?thesis by (auto simp: standardDasherize_def)
  next
    case (Some name)
    have "(\<exists>e. compileComponents lib rule entries
                 (cs(name \<mapsto> preprocessComponentRule lib rawRules)) = Inl e)
          \<longleftrightarrow> (\<exists>snippet \<in> fst ` set entries. snippetToDasherizedName lib snippet = None)"
      by (rule Cons.IH)
    with e Some show ?thesis by (simp add: standardDasherize_def)
  qed
qed

lemma compileComponents_error:
  "compileComponents lib rule entries cs = Inl e
     \<Longrightarrow> \<exists>snippet \<in> fst ` set entries.
           e = UnparsableSnippet snippet rule \<and> snippetToDasherizedName lib snippet = None"
proof (induction entries arbitrary: cs)
  case Nil
  then show ?case by simp
next
  case (Cons entry entries)
  obtain snippet rawRules where e: "entry = (snippet, rawRules)" by (cases entry)
  show ?case
  proof (cases "snippetToDasherizedName lib snippet")
    case None
    with e Cons.prems show ?thesis by (auto simp: standardDasherize_def)
  next
    case (Some name)
    with e Cons.prems
    have "compileComponents lib rule entries
            (cs(name \<mapsto> preprocessComponentRule lib rawRules)) = Inl e"
      by (simp add: standardDasherize_def)
    from Cons.IH [OF this] show ?thesis by auto
  qed
qed

lemma compileRules_fails:
  "(\<exists>e. compileRules lib root active compiled = Inl e)
     \<longleftrightarrow> (\<exists>rule \<in> set active. \<exists>snippet. unparsable lib rule snippet)"
proof (induction lib root active compiled rule: compileRules.induct)
  case (1 lib root compiled)
  then show ?case by simp
next
  case (2 lib root rule activePackageRules compiled)
  show ?case
  proof (cases "rule_components rule")
    case None
    with 2 show ?thesis by (simp add: unparsable_def Let_def)
  next
    case (Some entries)
    show ?thesis
    proof (cases "compileComponents lib rule entries (components compiled)")
      case (Inl e)
      then have "\<exists>snippet \<in> fst ` set entries. snippetToDasherizedName lib snippet = None"
        using compileComponents_fails [of lib rule entries "components compiled"] by blast
      then have "\<exists>snippet. unparsable lib rule snippet"
        using Some by (auto simp: unparsable_def)
      with Inl Some show ?thesis by auto
    next
      case (Inr components')
      then have "\<not> (\<exists>snippet \<in> fst ` set entries. snippetToDasherizedName lib snippet = None)"
        using compileComponents_fails [of lib rule entries "components compiled"] by auto
      then have n: "\<not> (\<exists>snippet. unparsable lib rule snippet)"
        using Some by (auto simp: unparsable_def)
      from 2(1) [OF _ refl refl, of components'] Inr Some
      have "(\<exists>e. compileRules lib root (rule # activePackageRules) compiled = Inl e)
            \<longleftrightarrow> (\<exists>rule \<in> set activePackageRules. \<exists>snippet. unparsable lib rule snippet)"
        by (simp add: Let_def)
      with n show ?thesis by auto
    qed
  qed
qed

lemma compileRules_error:
  "compileRules lib root active compiled = Inl e
     \<Longrightarrow> \<exists>rule \<in> set active. \<exists>snippet. e = UnparsableSnippet snippet rule
            \<and> unparsable lib rule snippet"
proof (induction lib root active compiled rule: compileRules.induct)
  case (1 lib root compiled)
  then show ?case by simp
next
  case (2 lib root rule activePackageRules compiled)
  show ?case
  proof (cases "rule_components rule")
    case None
    with 2 show ?thesis by (auto simp: Let_def)
  next
    case (Some entries)
    show ?thesis
    proof (cases "compileComponents lib rule entries (components compiled)")
      case (Inl e')
      with 2(2) Some have "e = e'" by simp
      with compileComponents_error [OF Inl] Some show ?thesis
        by (auto simp: unparsable_def)
    next
      case (Inr components')
      with 2(2) Some have "compileRules lib root activePackageRules
              \<lparr> files = (case rule_addonTemplates rule of
                           None \<Rightarrow> (case rule_appTemplates rule of
                                      None \<Rightarrow> files compiled
                                    | Some entries \<Rightarrow>
                                        compileAppTemplates lib root entries (files compiled))
                         | Some entries \<Rightarrow>
                             compileAddonTemplates lib (rule_roots rule) entries
                               (case rule_appTemplates rule of
                                      None \<Rightarrow> files compiled
                                    | Some entries \<Rightarrow>
                                        compileAppTemplates lib root entries (files compiled))),
                 components = components' \<rparr> = Inl e"
        by (simp add: Let_def)
      with 2(1) [OF _ refl refl, of components'] Inr Some show ?thesis
        by (auto simp: Let_def)
    qed
  qed
qed

text \<open>
  An answer \<open>false\<close> leaves the stack as it was.
\<close>

lemma scanStack_unsafe_unchanged:
  "\<not> fst (scanStack parts stack) \<Longrightarrow> snd (scanStack parts stack) = stack"
  by (induction parts stack rule: scanStack.induct)
     (auto simp: checkMarker_def
        split: option.splits prod.splits SafeEntry.splits ArgEntry.splits bool.splits if_splits)

lemma safeComponentInScope_unsafe_unchanged:
  "\<not> fst (safeComponentInScope name stack) \<Longrightarrow> snd (safeComponentInScope name stack) = stack"
  using scanStack_unsafe_unchanged [of "split (CHR ''.'') name" stack]
  by (simp add: safeComponentInScope_def Let_def split: if_splits)

lemma emit_error: "emit r (Some (Error dep)) setter node st = errorOutcome r dep node st"
  by (simp add: emit_def reportError_def errorOutcome_def)

lemma reportError_outcome:
  "(case reportError r dep st of Inl e \<Rightarrow> Inl e | Inr st' \<Rightarrow> Inr (x, st'))
     = errorOutcome r dep x st"
  by (simp add: reportError_def errorOutcome_def)

lemma withRules_fails:
  "(\<exists>e. withRules lib active r = Inl e)
     \<longleftrightarrow> (\<exists>rule \<in> set active. \<exists>snippet. unparsable lib rule snippet)"
  using compileRules_fails [of lib "appRoot r" active
          "\<lparr> files = Map.empty, components = Map.empty \<rparr>"]
  by (auto simp: withRules_def rulesGetter_def split: sum.splits)

lemma withRules_error:
  "withRules lib active r = Inl e
     \<Longrightarrow> \<exists>rule \<in> set active. \<exists>snippet. e = UnparsableSnippet snippet rule
            \<and> unparsable lib rule snippet"
  using compileRules_error [of lib "appRoot r" active
          "\<lparr> files = Map.empty, components = Map.empty \<rparr>" e]
  by (auto simp: withRules_def rulesGetter_def split: sum.splits)

text \<open>
  Claim C4, amended. An error resolution handed to \<^verbatim>\<open>emit\<close>, whatever its class, has the
  three outcomes of \<^verbatim>\<open>reportError\<close>: it is thrown when no audit handler is registered and
  unsafe dynamic components are not allowed, appended to the messages of the handler when
  one is registered, and dropped otherwise. The visitor of mustache statements gives
  exactly these outcomes to the unsafe-dynamic error of \<^verbatim>\<open>{{component path}}\<close>, to the
  ambiguity error of a bare call without arguments and to the ambiguity error of a call
  whose toggles do not agree, the node being left as it was. So with no handler and
  unsafe dynamic components allowed the visitor throws no resolver error and records
  nothing, for every class. A configuration error, a snippet that cannot be parsed, is
  thrown by the getter of the rules whatever the handler and the options: the getter fails
  exactly when such a snippet exists, with an error that names one.
\<close>

theorem error_classes_surfaced:
  "emit r (Some (Error dep)) setter node st = errorOutcome r dep node st
   \<and> (\<not> rootInScope parts (scopeStack st) \<and> length parts \<le> 1
       \<and> staticComponentsEnabled r
       \<and> \<not> fst (safeComponentInScope p (scopeStack st))
       \<and> (\<forall>own. findRules r (filename r) = Some own \<longrightarrow> p \<notin> set (safeInteriorPaths own)) \<longrightarrow>
       MustacheStatement_enter r parent
         (MustacheStatement (PathExpression ''component'' False data parts pl)
            (PathExpression p t d ps l0 # params) hash l) st =
       errorOutcome r \<lparr> message = ''Unsafe dynamic component'', detail = p, loc = l0 \<rparr>
         (MustacheStatement (PathExpression ''component'' False data parts pl)
            (PathExpression p t d ps l0 # params) hash l) st)
   \<and> (\<not> rootInScope parts (scopeStack st) \<and> length parts \<le> 1
       \<and> CHR ''@'' \<notin> set orig \<and> CHR ''/'' \<notin> set orig \<and> \<not> isAttrNode parent
       \<and> pairs hash = []
       \<and> (staticComponentsEnabled r \<or> staticHelpersEnabled r)
       \<and> orig \<notin> set builtInKeywords \<and> \<not> isIgnoredComponent r orig
       \<and> ownDisambiguation r orig = None
       \<and> capitalize (camelCase r orig) = Inr capitalized \<longrightarrow>
       MustacheStatement_enter r parent
         (MustacheStatement (PathExpression orig False data parts pl) [] hash l) st =
       errorOutcome r \<lparr> message = ''unsupported ambiguous syntax'',
                        detail = ambiguousDetail orig capitalized, loc = pl \<rparr>
         (MustacheStatement (PathExpression orig False data parts pl) [] hash l) st)
   \<and> (\<not> rootInScope parts (scopeStack st) \<and> length parts \<le> 1
       \<and> \<not> prefix ''@'' orig \<and> \<not> isAttrNode parent
       \<and> (args \<noteq> [] \<or> pairs hash \<noteq> [] \<or> CHR ''/'' \<in> set orig \<or> CHR ''@'' \<in> set orig)
       \<and> staticComponentsEnabled r \<noteq> staticHelpersEnabled r
       \<and> orig \<notin> set builtInKeywords \<and> \<not> isIgnoredComponent r orig
       \<and> ownDisambiguation r orig = None
       \<and> capitalize (camelCase r orig) = Inr capitalized \<longrightarrow>
       MustacheStatement_enter r parent
         (MustacheStatement (PathExpression orig False data parts pl) args hash l) st =
       errorOutcome r \<lparr> message = ''unsupported ambiguity between helper and component'',
                        detail = disagreeDetail orig capitalized, loc = pl \<rparr>
         (MustacheStatement (PathExpression orig False data parts pl) args hash l) st)
   \<and> (\<not> auditHandler r \<and> allowUnsafeDynamicComponents (options r) \<longrightarrow>
         (\<forall>m l f. MustacheStatement_enter r parent visited st
                    \<noteq> Inl (TemplateResolverError m l f))
       \<and> (\<forall>n st'. MustacheStatement_enter r parent visited st = Inr (n, st')
                    \<longrightarrow> audit st' = audit st))
   \<and> ((\<exists>e. withRules lib active r = Inl e)
         \<longleftrightarrow> (\<exists>rule \<in> set active. \<exists>snippet. unparsable lib rule snippet))
   \<and> (\<forall>e. withRules lib active r = Inl e \<longrightarrow>
         (\<exists>rule \<in> set active. \<exists>snippet. e = UnparsableSnippet snippet rule
            \<and> unparsable lib rule snippet))"
proof -
  have u: "MustacheStatement_enter r parent
         (MustacheStatement (PathExpression ''component'' False data parts pl)
            (PathExpression p t d ps l0 # params) hash l) st =
       errorOutcome r \<lparr> message = ''Unsafe dynamic component'', detail = p, loc = l0 \<rparr>
         (MustacheStatement (PathExpression ''component'' False data parts pl)
            (PathExpression p t d ps l0 # params) hash l) st"
    if h: "\<not> rootInScope parts (scopeStack st)" "length parts \<le> 1"
      "staticComponentsEnabled r" "\<not> fst (safeComponentInScope p (scopeStack st))"
      "\<forall>own. findRules r (filename r) = Some own \<longrightarrow> p \<notin> set (safeInteriorPaths own)"
  proof -
    have s: "safeComponentInScope p (scopeStack st) = (False, scopeStack st)"
      using h(4) safeComponentInScope_unsafe_unchanged [of p "scopeStack st"]
      by (cases "safeComponentInScope p (scopeStack st)") simp
    have t: "targetComponentHelper r (Path p) l0 None =
               Some (Error \<lparr> message = ''Unsafe dynamic component'', detail = p, loc = l0 \<rparr>)"
      using h(3,5)
      by (auto simp: targetComponentHelper_def impliedMessage_def Let_def
          split: option.splits)
    show ?thesis
      using h(1,2)
      by (simp add: MustacheStatement_enter_def resolveLocator_def s t emit_error)
  qed
  have n: "MustacheStatement_enter r parent
         (MustacheStatement (PathExpression orig False data parts pl) [] hash l) st =
       errorOutcome r \<lparr> message = ''unsupported ambiguous syntax'',
                        detail = ambiguousDetail orig capitalized, loc = pl \<rparr>
         (MustacheStatement (PathExpression orig False data parts pl) [] hash l) st"
    if h: "\<not> rootInScope parts (scopeStack st)" "length parts \<le> 1"
      "CHR ''@'' \<notin> set orig" "CHR ''/'' \<notin> set orig" "\<not> isAttrNode parent"
      "pairs hash = []" "staticComponentsEnabled r \<or> staticHelpersEnabled r"
      "orig \<notin> set builtInKeywords" "\<not> isIgnoredComponent r orig"
      "ownDisambiguation r orig = None" "capitalize (camelCase r orig) = Inr capitalized"
  proof -
    have np: "\<not> prefix ''@'' orig" using h(3) prefix_at_in_set by blast
    have tt: "targetHelperOrComponent r orig pl False st =
               (case reportError r
                       \<lparr> message = ''unsupported ambiguous syntax'',
                         detail = ambiguousDetail orig capitalized, loc = pl \<rparr> st of
                  Inl e \<Rightarrow> Inl e
                | Inr st' \<Rightarrow> Inr (None, st'))"
      using h(3,4,7,8,9,10,11) by (auto simp: targetHelperOrComponent_def)
    show ?thesis
      using MustacheStatement_enter_ambiguous [OF h(1) h(2) np h(5) h(8),
          of r data pl "[]" hash l]
      by (simp add: h(6) tt reportError_def emit_def errorOutcome_def)
  qed
  have w: "MustacheStatement_enter r parent
         (MustacheStatement (PathExpression orig False data parts pl) args hash l) st =
       errorOutcome r \<lparr> message = ''unsupported ambiguity between helper and component'',
                        detail = disagreeDetail orig capitalized, loc = pl \<rparr>
         (MustacheStatement (PathExpression orig False data parts pl) args hash l) st"
    if h: "\<not> rootInScope parts (scopeStack st)" "length parts \<le> 1"
      "\<not> prefix ''@'' orig" "\<not> isAttrNode parent"
      "args \<noteq> [] \<or> pairs hash \<noteq> [] \<or> CHR ''/'' \<in> set orig \<or> CHR ''@'' \<in> set orig"
      "staticComponentsEnabled r \<noteq> staticHelpersEnabled r"
      "orig \<notin> set builtInKeywords" "\<not> isIgnoredComponent r orig"
      "ownDisambiguation r orig = None" "capitalize (camelCase r orig) = Inr capitalized"
  proof -
    have tt: "targetHelperOrComponent r orig pl (args \<noteq> [] \<or> pairs hash \<noteq> []) st =
               (case reportError r
                       \<lparr> message = ''unsupported ambiguity between helper and component'',
                         detail = disagreeDetail orig capitalized, loc = pl \<rparr> st of
                  Inl e \<Rightarrow> Inl e
                | Inr st' \<Rightarrow> Inr (None, st'))"
      using h(5,6,7,8,9,10) by (auto simp: targetHelperOrComponent_def)
    show ?thesis
      unfolding MustacheStatement_enter_ambiguous [OF h(1) h(2) h(3) h(4) h(7),
          of r data pl args hash l] tt
      by (simp add: reportError_def emit_def errorOutcome_def)
  qed
  have b: "\<not> auditHandler r \<and> allowUnsafeDynamicComponents (options r) \<longrightarrow>
         (\<forall>m l f. MustacheStatement_enter r parent visited st
                    \<noteq> Inl (TemplateResolverError m l f))
       \<and> (\<forall>n st'. MustacheStatement_enter r parent visited st = Inr (n, st')
                    \<longrightarrow> audit st' = audit st)"
  proof (intro impI, elim conjE)
    assume h: "\<not> auditHandler r" "allowUnsafeDynamicComponents (options r)"
    from tolerant_MustacheStatement_enter [OF h, of parent visited st]
    show "(\<forall>m l f. MustacheStatement_enter r parent visited st
                    \<noteq> Inl (TemplateResolverError m l f))
       \<and> (\<forall>n st'. MustacheStatement_enter r parent visited st = Inr (n, st')
                    \<longrightarrow> audit st' = audit st)"
      by auto
  qed
  have c1: "(\<exists>e. withRules lib active r = Inl e)
         \<longleftrightarrow> (\<exists>rule \<in> set active. \<exists>snippet. unparsable lib rule snippet)"
    by (rule withRules_fails)
  have c2: "\<forall>e. withRules lib active r = Inl e \<longrightarrow>
         (\<exists>rule \<in> set active. \<exists>snippet. e = UnparsableSnippet snippet rule
            \<and> unparsable lib rule snippet)"
    using withRules_error by blast
  from emit_error [of r dep setter node st] u n w b c1 c2 show ?thesis by blast
qed

theorem error_classes_surfaced_witness:
  "MustacheStatement_enter (example_resolver (toggles True False False) False) None
     (curly ''component''
        [PathExpression ''this.dynamicThing'' True False [''dynamicThing''] ((1, 12), (1, 29))]
        []) initial_state
   = Inl (TemplateResolverError
            ''Unsafe dynamic component: this.dynamicThing in templates/application.hbs''
            ((1, 12), (1, 29)) ''/app/templates/application.hbs'')
   \<and> MustacheStatement_enter (example_resolver (toggles False False False) True) None
       (curly ''hello-world'' [] []) initial_state
     = Inr (curly ''hello-world'' [] [],
            initial_state\<lparr> audit :=
              [\<lparr> audit_message = ''unsupported ambiguous syntax'',
                 audit_filename = ''/app/templates/application.hbs'',
                 audit_detail = ambiguousDetail ''hello-world'' ''HelloWorld'',
                 audit_loc = ((1, 2), (1, 13)), audit_source = ''{{hello-world}}'' \<rparr>] \<rparr>)
   \<and> MustacheStatement_enter (example_resolver (toggles False True True) False) None
       (curly ''hello-world'' [NumberLiteral 1 ((1, 14), (1, 15))] []) initial_state
     = Inr (curly ''hello-world'' [NumberLiteral 1 ((1, 14), (1, 15))] [], initial_state)
   \<and> withRules example_library [bad_rules] (example_resolver (toggles True True True) True)
     = Inl (UnparsableSnippet ''not a component'' bad_rules)"
proof -
  let ?strict = "example_resolver (toggles True False False) False"
  let ?audit = "example_resolver (toggles False False False) True"
  let ?tolerant = "example_resolver (toggles False True True) False"
  let ?any = "example_resolver (toggles True True True) True"
  have s: "\<not> rootInScope [''component''] (scopeStack initial_state)"
          "\<not> rootInScope [''hello-world''] (scopeStack initial_state)"
    by (simp_all add: rootInScope_def at_index_def initial_state_def)
  have u: "staticComponentsEnabled ?strict"
          "\<not> fst (safeComponentInScope ''this.dynamicThing'' (scopeStack initial_state))"
          "\<forall>own. findRules ?strict (filename ?strict) = Some own
                 \<longrightarrow> ''this.dynamicThing'' \<notin> set (safeInteriorPaths own)"
    by (simp_all add: staticComponentsEnabled_def example_resolver_fields toggles_fields
        safeComponentInScope_def initial_state_def Let_def findRules_def)
  have w1: "MustacheStatement_enter ?strict None
     (curly ''component''
        [PathExpression ''this.dynamicThing'' True False [''dynamicThing''] ((1, 12), (1, 29))]
        []) initial_state
   = Inl (TemplateResolverError
            ''Unsafe dynamic component: this.dynamicThing in templates/application.hbs''
            ((1, 12), (1, 29)) ''/app/templates/application.hbs'')"
    using error_classes_surfaced [where r = ?strict and st = initial_state
            and parts = "[''component'']" and p = "''this.dynamicThing''" and parent = None
            and data = False and pl = "((1, 2), (1, 11))" and t = True and d = False
            and ps = "[''dynamicThing'']" and ?l0.0 = "((1, 12), (1, 29))" and params = "[]"
            and hash = "Hash [] ((1, 0), (1, 0))" and l = "((1, 0), (1, 0))",
            THEN conjunct2, THEN conjunct1]
          s(1) u
    by (simp add: curly_def errorOutcome_def example_resolver_fields toggles_fields
        example_humanReadableFile)
  have k: "''hello-world'' \<notin> set builtInKeywords" by (simp add: builtInKeywords_def)
  have a: "staticComponentsEnabled ?audit \<or> staticHelpersEnabled ?audit"
          "\<not> isIgnoredComponent ?audit ''hello-world''"
          "ownDisambiguation ?audit ''hello-world'' = None"
          "capitalize (camelCase ?audit ''hello-world'') = Inr ''HelloWorld''"
    by (simp_all add: staticComponentsEnabled_def example_resolver_fields toggles_fields
        isIgnoredComponent_def ownDisambiguation_def findRules_def capitalize_def
        toUpperCase_def)
  have w2: "MustacheStatement_enter ?audit None (curly ''hello-world'' [] []) initial_state
     = Inr (curly ''hello-world'' [] [],
            initial_state\<lparr> audit :=
              [\<lparr> audit_message = ''unsupported ambiguous syntax'',
                 audit_filename = ''/app/templates/application.hbs'',
                 audit_detail = ambiguousDetail ''hello-world'' ''HelloWorld'',
                 audit_loc = ((1, 2), (1, 13)), audit_source = ''{{hello-world}}'' \<rparr>] \<rparr>)"
    using error_classes_surfaced [where r = ?audit and st = initial_state
            and parts = "[''hello-world'']" and orig = "''hello-world''" and parent = None
            and data = False and pl = "((1, 2), (1, 13))"
            and hash = "Hash [] ((1, 0), (1, 0))" and l = "((1, 0), (1, 0))"
            and capitalized = "''HelloWorld''",
            THEN conjunct2, THEN conjunct2, THEN conjunct1]
          s(2) k a
    by (simp add: curly_def errorOutcome_def example_resolver_fields toggles_fields
        initial_state_def)
  have b: "staticComponentsEnabled ?tolerant \<noteq> staticHelpersEnabled ?tolerant"
          "\<not> isIgnoredComponent ?tolerant ''hello-world''"
          "ownDisambiguation ?tolerant ''hello-world'' = None"
          "capitalize (camelCase ?tolerant ''hello-world'') = Inr ''HelloWorld''"
    by (simp_all add: staticComponentsEnabled_def staticHelpersEnabled_def
        example_resolver_fields toggles_fields
        isIgnoredComponent_def ownDisambiguation_def findRules_def capitalize_def
        toUpperCase_def)
  have w3: "MustacheStatement_enter ?tolerant None
       (curly ''hello-world'' [NumberLiteral 1 ((1, 14), (1, 15))] []) initial_state
     = Inr (curly ''hello-world'' [NumberLiteral 1 ((1, 14), (1, 15))] [], initial_state)"
    using error_classes_surfaced [where r = ?tolerant and st = initial_state
            and parts = "[''hello-world'']" and orig = "''hello-world''" and parent = None
            and data = False and pl = "((1, 2), (1, 13))"
            and args = "[NumberLiteral 1 ((1, 14), (1, 15))]"
            and hash = "Hash [] ((1, 0), (1, 0))" and l = "((1, 0), (1, 0))"
            and capitalized = "''HelloWorld''",
            THEN conjunct2, THEN conjunct2, THEN conjunct2, THEN conjunct1]
          s(2) k b
    by (simp add: curly_def errorOutcome_def example_resolver_fields toggles_fields)
  have c: "unparsable example_library bad_rules snippet \<longleftrightarrow> snippet = ''not a component''"
    for snippet
    by (auto simp: unparsable_def bad_rules_def example_library_def)
  note t6 = error_classes_surfaced [where lib = example_library and active = "[bad_rules]"
             and r = ?any, THEN conjunct2, THEN conjunct2, THEN conjunct2, THEN conjunct2,
             THEN conjunct2, THEN conjunct1]
  note t7 = error_classes_surfaced [where lib = example_library and active = "[bad_rules]"
             and r = ?any, THEN conjunct2, THEN conjunct2, THEN conjunct2, THEN conjunct2,
             THEN conjunct2, THEN conjunct2]
  from t6 c have "\<exists>e. withRules example_library [bad_rules] ?any = Inl e" by simp
  then obtain e where e: "withRules example_library [bad_rules] ?any = Inl e" ..
  with t7 have "\<exists>rule \<in> set [bad_rules]. \<exists>snippet. e = UnparsableSnippet snippet rule
            \<and> unparsable example_library rule snippet"
    by blast
  with c have "e = UnparsableSnippet ''not a component'' bad_rules" by auto
  with e have w4: "withRules example_library [bad_rules] ?any
                     = Inl (UnparsableSnippet ''not a component'' bad_rules)" by simp
  from w1 w2 w3 w4 show ?thesis by blast
qed

section \<open>Dynamic component resolution\<close>

text \<open>
  The resolution of an argument expression is the one specified for its kind, except for
  mustache calls of \<^verbatim>\<open>component\<close>, which get none.
\<close>

lemma handleComponentHelper_spec:
  "staticComponentsEnabled r \<Longrightarrow>
     fst (handleComponentHelper r param implied st) =
       (if curlyComponentCall param then None
        else spec_dynamicComponentResolution r implied st (argumentKind param))"
proof (induction r param implied st rule: handleComponentHelper.induct)
  case (3 r path params hash l impliedBecause st)
  show ?case
  proof (cases "pairs hash = [] \<and> params = []")
    case True
    with 3 show ?thesis by simp
  next
    case False
    with 3 show ?thesis
      by (auto simp: spec_dynamicComponentResolution_def resolveLocator_def
          targetComponentHelper_def)
  qed
qed (simp_all add: spec_dynamicComponentResolution_def resolveLocator_def
       targetComponentHelper_def ownSafeInteriorPaths_def split: prod.splits option.splits)

lemma unsafe_path_resolution:
  assumes "staticComponentsEnabled r"
    and "\<not> fst (safeComponentInScope p (scopeStack st))"
    and "p \<notin> ownSafeInteriorPaths r"
  shows "handleComponentHelper r (PathExpression p t d ps l0) implied st =
           (Some (Error \<lparr> message = impliedMessage implied, detail = p, loc = l0 \<rparr>), st)"
proof -
  have s: "safeComponentInScope p (scopeStack st) = (False, scopeStack st)"
    using assms(2) safeComponentInScope_unsafe_unchanged [of p "scopeStack st"]
    by (cases "safeComponentInScope p (scopeStack st)") simp
  have t: "targetComponentHelper r (Path p) l0 implied =
             Some (Error \<lparr> message = impliedMessage implied, detail = p, loc = l0 \<rparr>)"
    using assms(1,3)
    by (auto simp: targetComponentHelper_def ownSafeInteriorPaths_def Let_def
        split: option.splits)
  show ?thesis by (simp add: resolveLocator_def s t)
qed

lemma argument_unsafe_path:
  assumes "staticComponentsEnabled r"
    and "findIndex (attrMatches name) attrs = Some i"
    and "attrValue (attrs ! i) = PathExpression p t d ps l0"
    and "\<not> fst (safeComponentInScope p (scopeStack st))"
    and "p \<notin> ownSafeInteriorPaths r"
  shows "handleDynamicComponentArguments r componentName (name # names) attrs st =
           (case errorOutcome r
                   \<lparr> message = impliedMessage (Some (componentName, name)), detail = p,
                     loc = l0 \<rparr> (attrs ! i) st of
              Inl e \<Rightarrow> Inl e
            | Inr (attr', st2) \<Rightarrow>
                handleDynamicComponentArguments r componentName names attrs st2)"
proof -
  have h: "handleComponentHelper r (attrValue (attrs ! i)) (Some (componentName, name)) st =
             (Some (Error \<lparr> message = impliedMessage (Some (componentName, name)),
                             detail = p, loc = l0 \<rparr>), st)"
    unfolding assms(3) by (rule unsafe_path_resolution [OF assms(1,4,5)])
  show ?thesis
    by (simp add: assms(2) h emit_error errorOutcome_def)
qed

lemma block_component_marker:
  assumes "\<not> rootInScope parts (scopeStack st)" and "length parts \<le> 1"
    and "\<not> (orig = ''component'' \<and> params \<noteq> [])"
    and "targetComponent r orig = Some c"
  shows "BlockStatement_visit r
           (BlockStatement (PathExpression orig False data parts pl) params hash program
              inverseBlock l) st =
         Inr (BlockStatement (builders_path (bindImport r (specifier c) (nameHint c))) params
                hash program inverseBlock l,
              st\<lparr> bound := bound st @ [(specifier c, nameHint c)],
                  scopeStack :=
                    Marker \<lparr> resolution = c,
                             live_argumentsAreComponents = argumentsAreComponents c,
                             exit = BlockStatementExit (rootNameOf parts)
                                      (length (captured st)) \<rparr>
                      # scopeStack st,
                  captured := captured st
                    @ [BlockStatement (builders_path (bindImport r (specifier c) (nameHint c)))
                         params hash program inverseBlock l] \<rparr>)"
  using assms
  by (auto simp: BlockStatement_visit_def emit_def enteringComponentBlock_def Let_def)

text \<open>
  Claim C7, amended. With static components enabled, the resolution
  \<^verbatim>\<open>handleComponentHelper\<close> returns for an argument expression is the one the
  specification gives for the kind of the expression: the text of a string literal is
  resolved by \<^verbatim>\<open>targetComponent\<close> (to the component specifier of that name, unless it is a
  built-in keyword or ignored by a rule); a path that \<^verbatim>\<open>safeComponentInScope\<close> proves
  safe, or that the file lists under \<^verbatim>\<open>safeInteriorPaths\<close>, gets no resolution, and any
  other path an error whose detail is the path; a nested \<^verbatim>\<open>component\<close> or
  \<^verbatim>\<open>ensure-safe-component\<close> sub-expression gets no resolution; anything else gets the error
  whose detail is that the expression cannot be statically analyzed, with one exception: a
  mustache call of \<^verbatim>\<open>component\<close> with arguments gets no resolution either. The message of
  an error is the bare one when no \<^verbatim>\<open>impliedBecause\<close> is passed, as the three
  \<^verbatim>\<open>component\<close> forms do, whose unsafe path is given the outcomes of \<^verbatim>\<open>reportError\<close> with
  the bare message; and it names the component and the argument that
  \<^verbatim>\<open>handleDynamicComponentArguments\<close> passes, the name it was called with and the name of
  the argument found. For a block statement that name is the root of the callee as
  written: the exit closure that \<^verbatim>\<open>visitor.BlockStatement\<close> pushes keeps
  \<^verbatim>\<open>rootName\<close>, and calling it hands \<^verbatim>\<open>rootName\<close> to
  \<^verbatim>\<open>handleDynamicComponentArguments\<close>.
\<close>

theorem dynamic_component_resolution:
  assumes "staticComponentsEnabled r"
  shows "fst (handleComponentHelper r param implied st) =
           (if curlyComponentCall param then None
            else spec_dynamicComponentResolution r implied st (argumentKind param))
       \<and> (\<forall>s. s \<notin> set builtInKeywords \<and> \<not> isIgnoredComponent r s \<longrightarrow>
             (\<exists>c. targetComponent r s = Some c
                  \<and> specifier c = ''#embroider_compat/components/'' @ s))
       \<and> impliedMessage None = ''Unsafe dynamic component''
       \<and> sublist argumentName (impliedMessage (Some (componentName, argumentName)))
       \<and> sublist componentName (impliedMessage (Some (componentName, argumentName)))
       \<and> (\<forall>dep. fst (handleComponentHelper r param implied st) = Some (Error dep) \<longrightarrow>
             message dep = impliedMessage implied)
       \<and> (\<not> rootInScope parts (scopeStack st) \<and> length parts \<le> 1
           \<and> \<not> fst (safeComponentInScope p (scopeStack st)) \<and> p \<notin> ownSafeInteriorPaths r \<longrightarrow>
           MustacheStatement_enter r parent
             (MustacheStatement (PathExpression ''component'' False data parts pl)
                (PathExpression p t d ps l0 # params) hash l) st =
           errorOutcome r \<lparr> message = ''Unsafe dynamic component'', detail = p, loc = l0 \<rparr>
             (MustacheStatement (PathExpression ''component'' False data parts pl)
                (PathExpression p t d ps l0 # params) hash l) st
           \<and> BlockStatement_visit r
               (BlockStatement (PathExpression ''component'' False data parts pl)
                  (PathExpression p t d ps l0 # params) hash program inverseBlock l) st =
             errorOutcome r \<lparr> message = ''Unsafe dynamic component'', detail = p, loc = l0 \<rparr>
               (BlockStatement (PathExpression ''component'' False data parts pl)
                  (PathExpression p t d ps l0 # params) hash program inverseBlock l) st
           \<and> SubExpression_visit r
               (SubExpression (PathExpression ''component'' False data parts pl)
                  (PathExpression p t d ps l0 # params) hash l) st =
             errorOutcome r \<lparr> message = ''Unsafe dynamic component'', detail = p, loc = l0 \<rparr>
               (SubExpression (PathExpression ''component'' False data parts pl)
                  (PathExpression p t d ps l0 # params) hash l) st)
       \<and> (findIndex (attrMatches name) attrs = Some i
           \<and> attrValue (attrs ! i) = PathExpression p t d ps l0
           \<and> \<not> fst (safeComponentInScope p (scopeStack st)) \<and> p \<notin> ownSafeInteriorPaths r \<longrightarrow>
           handleDynamicComponentArguments r componentName (name # names) attrs st =
             (case errorOutcome r
                     \<lparr> message = impliedMessage (Some (componentName, name)), detail = p,
                       loc = l0 \<rparr> (attrs ! i) st of
                Inl e \<Rightarrow> Inl e
              | Inr (attr', st2) \<Rightarrow>
                  handleDynamicComponentArguments r componentName names attrs st2))
       \<and> (\<not> rootInScope parts (scopeStack st) \<and> length parts \<le> 1
           \<and> \<not> (orig = ''component'' \<and> args \<noteq> [])
           \<and> targetComponent r orig = Some c \<longrightarrow>
           BlockStatement_visit r
             (BlockStatement (PathExpression orig False data parts pl) args hash program
                inverseBlock l) st =
           Inr (BlockStatement (builders_path (bindImport r (specifier c) (nameHint c))) args
                  hash program inverseBlock l,
                st\<lparr> bound := bound st @ [(specifier c, nameHint c)],
                    scopeStack :=
                      Marker \<lparr> resolution = c,
                               live_argumentsAreComponents = argumentsAreComponents c,
                               exit = BlockStatementExit (rootNameOf parts)
                                        (length (captured st)) \<rparr>
                        # scopeStack st,
                    captured := captured st
                      @ [BlockStatement
                           (builders_path (bindImport r (specifier c) (nameHint c)))
                           args hash program inverseBlock l] \<rparr>))
       \<and> (exit m = BlockStatementExit rootName cell \<longrightarrow>
           callExit r m st =
             (case handleDynamicComponentArguments r rootName (live_argumentsAreComponents m)
                     (pairs (nodeHash (captured st ! cell))) st of
                Inl e \<Rightarrow> Inl e
              | Inr (ps', st') \<Rightarrow>
                  Inr (st'\<lparr> captured :=
                             (captured st')[cell := setPairs (captured st ! cell) ps'] \<rparr>)))"
proof -
  have lit: "\<forall>s. s \<notin> set builtInKeywords \<and> \<not> isIgnoredComponent r s \<longrightarrow>
               (\<exists>c. targetComponent r s = Some c
                    \<and> specifier c = ''#embroider_compat/components/'' @ s)"
    using assms by (simp add: targetComponent_def Let_def)
  have m0: "impliedMessage None = ''Unsafe dynamic component''"
    by (simp add: impliedMessage_def)
  have m1: "sublist argumentName (impliedMessage (Some (componentName, argumentName)))"
    by (simp only: impliedMessage_def option.case prod.case) (rule sublist_appendI)
  have m2: "sublist componentName (impliedMessage (Some (componentName, argumentName)))"
    by (simp only: impliedMessage_def option.case prod.case)
       (rule sublist_in_append_right, rule sublist_in_append_right, rule sublist_appendI)
  have m3: "\<forall>dep. fst (handleComponentHelper r param implied st) = Some (Error dep) \<longrightarrow>
             message dep = impliedMessage implied"
    unfolding handleComponentHelper_spec [OF assms]
    by (auto simp: spec_dynamicComponentResolution_def
        split: ArgumentKind.splits if_splits)
  have bare: "MustacheStatement_enter r parent
             (MustacheStatement (PathExpression ''component'' False data parts pl)
                (PathExpression p t d ps l0 # params) hash l) st =
           errorOutcome r \<lparr> message = ''Unsafe dynamic component'', detail = p, loc = l0 \<rparr>
             (MustacheStatement (PathExpression ''component'' False data parts pl)
                (PathExpression p t d ps l0 # params) hash l) st
           \<and> BlockStatement_visit r
               (BlockStatement (PathExpression ''component'' False data parts pl)
                  (PathExpression p t d ps l0 # params) hash program inverseBlock l) st =
             errorOutcome r \<lparr> message = ''Unsafe dynamic component'', detail = p, loc = l0 \<rparr>
               (BlockStatement (PathExpression ''component'' False data parts pl)
                  (PathExpression p t d ps l0 # params) hash program inverseBlock l) st
           \<and> SubExpression_visit r
               (SubExpression (PathExpression ''component'' False data parts pl)
                  (PathExpression p t d ps l0 # params) hash l) st =
             errorOutcome r \<lparr> message = ''Unsafe dynamic component'', detail = p, loc = l0 \<rparr>
               (SubExpression (PathExpression ''component'' False data parts pl)
                  (PathExpression p t d ps l0 # params) hash l) st"
    if h: "\<not> rootInScope parts (scopeStack st)" "length parts \<le> 1"
      "\<not> fst (safeComponentInScope p (scopeStack st))" "p \<notin> ownSafeInteriorPaths r"
  proof -
    have u: "resolveLocator r (Path p) l0 None st =
               (Some (Error \<lparr> message = impliedMessage None, detail = p, loc = l0 \<rparr>), st)"
      using unsafe_path_resolution [OF assms h(3) h(4), of t d ps l0 None] by simp
    show ?thesis
      using h(1,2)
      by (simp add: MustacheStatement_enter_def BlockStatement_visit_def
          SubExpression_visit_def u emit_error m0)
  qed
  have arg: "handleDynamicComponentArguments r componentName (name # names) attrs st =
             (case errorOutcome r
                     \<lparr> message = impliedMessage (Some (componentName, name)), detail = p,
                       loc = l0 \<rparr> (attrs ! i) st of
                Inl e \<Rightarrow> Inl e
              | Inr (attr', st2) \<Rightarrow>
                  handleDynamicComponentArguments r componentName names attrs st2)"
    if "findIndex (attrMatches name) attrs = Some i"
      "attrValue (attrs ! i) = PathExpression p t d ps l0"
      "\<not> fst (safeComponentInScope p (scopeStack st))" "p \<notin> ownSafeInteriorPaths r"
    using argument_unsafe_path [OF assms that] .
  have ex: "callExit r m st =
             (case handleDynamicComponentArguments r rootName (live_argumentsAreComponents m)
                     (pairs (nodeHash (captured st ! cell))) st of
                Inl e \<Rightarrow> Inl e
              | Inr (ps', st') \<Rightarrow>
                  Inr (st'\<lparr> captured :=
                             (captured st')[cell := setPairs (captured st ! cell) ps'] \<rparr>))"
    if "exit m = BlockStatementExit rootName cell"
    using that by (simp add: callExit_def Let_def)
  from handleComponentHelper_spec [OF assms, of param implied st] lit m0 m1 m2 m3 bare arg
       block_component_marker [of parts st orig args r c data pl hash program inverseBlock l]
       ex
  show ?thesis by blast
qed

lemma form_rules_resolver_fields:
  "filename (form_rules_resolver h) = ''/app/templates/application.hbs''"
  "contents (form_rules_resolver h) = ''{{hello-world}}''"
  "appRoot (form_rules_resolver h) = ''/app''"
  "options (form_rules_resolver h) = toggles True h False"
  "auditHandler (form_rules_resolver h) = False"
  "files (rules (form_rules_resolver h)) = Map.empty"
  "components (rules (form_rules_resolver h)) ''form-thing''
     = Some \<lparr> yieldsSafeComponents = [], rule_yieldsArguments = [],
              rule_argumentsAreComponents = [''title''], safeToIgnore = False,
              safeInteriorPaths = [], disambiguate = Map.empty \<rparr>"
  "camelCase (form_rules_resolver h) = camelCaseDashed"
  "bindImport (form_rules_resolver h) = (\<lambda>spec hint. camelCaseDashed hint)"
  "humanReadableFile (form_rules_resolver h) ''/app/templates/application.hbs''
     = ''templates/application.hbs''"
  by (simp_all add: form_rules_resolver_def example_resolver_fields humanReadableFile_def
      suffix_to_prefix)

theorem dynamic_component_resolution_witness:
  "fst (handleComponentHelper example_rules_resolver
          (PathExpression ''this.dynamicThing'' True False [''dynamicThing''] ((1, 12), (1, 29)))
          None initial_state)
     = Some (Error \<lparr> message = ''Unsafe dynamic component'', detail = ''this.dynamicThing'',
                      loc = ((1, 12), (1, 29)) \<rparr>)
   \<and> fst (handleComponentHelper example_rules_resolver
          (PathExpression ''this.trusted'' True False [''trusted''] ((1, 12), (1, 24)))
          None initial_state) = None
   \<and> BlockStatement_visit (form_rules_resolver False) block_form_thing initial_state
     = Inr (BlockStatement (builders_path ''formThing_'') []
              (Hash [title_pair] ((1, 14), (1, 36))) (Block [] []) None ((1, 0), (1, 54)),
            initial_state
              \<lparr> bound := [(''#embroider_compat/components/form-thing'', ''form-thing_'')],
                scopeStack :=
                  [Marker \<lparr> resolution = form_thing_resolution,
                            live_argumentsAreComponents = [''title''],
                            exit = BlockStatementExit ''form-thing'' 0 \<rparr>,
                   BlockParams []],
                captured :=
                  [BlockStatement (builders_path ''formThing_'') []
                     (Hash [title_pair] ((1, 14), (1, 36))) (Block [] []) None
                     ((1, 0), (1, 54))] \<rparr>)
   \<and> handleDynamicComponentArguments (form_rules_resolver False) ''form-thing'' [''title'']
       [title_pair] initial_state
     = Inl (TemplateResolverError
              (impliedMessage (Some (''form-thing'', ''title''))
                 @ '': this.x in templates/application.hbs'')
              ((1, 30), (1, 36)) ''/app/templates/application.hbs'')"
proof -
  let ?r = "form_rules_resolver False"
  have e: "staticComponentsEnabled example_rules_resolver"
    by (simp add: staticComponentsEnabled_def example_rules_resolver_def
        example_resolver_fields toggles_fields)
  have p: "ownSafeInteriorPaths example_rules_resolver = {''this.trusted''}"
    by (simp add: ownSafeInteriorPaths_def findRules_def example_rules_resolver_def
        example_resolver_fields)
  have s1: "\<not> fst (safeComponentInScope ''this.dynamicThing'' (scopeStack initial_state))"
    by (simp add: safeComponentInScope_def initial_state_def Let_def)
  have s2: "\<not> fst (safeComponentInScope ''this.trusted'' (scopeStack initial_state))"
    by (simp add: safeComponentInScope_def initial_state_def Let_def)
  have w1: "fst (handleComponentHelper example_rules_resolver
          (PathExpression ''this.dynamicThing'' True False [''dynamicThing''] ((1, 12), (1, 29)))
          None initial_state)
     = Some (Error \<lparr> message = ''Unsafe dynamic component'', detail = ''this.dynamicThing'',
                      loc = ((1, 12), (1, 29)) \<rparr>)"
    using dynamic_component_resolution [OF e, where implied = None and st = initial_state
            and param = "PathExpression ''this.dynamicThing'' True False [''dynamicThing'']
                           ((1, 12), (1, 29))", THEN conjunct1]
    by (simp add: spec_dynamicComponentResolution_def p s1 impliedMessage_def)
  have w2: "fst (handleComponentHelper example_rules_resolver
          (PathExpression ''this.trusted'' True False [''trusted''] ((1, 12), (1, 24)))
          None initial_state) = None"
    using dynamic_component_resolution [OF e, where implied = None and st = initial_state
            and param = "PathExpression ''this.trusted'' True False [''trusted'']
                           ((1, 12), (1, 24))", THEN conjunct1]
    by (simp add: spec_dynamicComponentResolution_def p s2 impliedMessage_def)
  have f: "staticComponentsEnabled ?r"
    by (simp add: staticComponentsEnabled_def form_rules_resolver_fields toggles_fields)
  have b: "\<not> rootInScope [''form-thing''] (scopeStack initial_state)"
          "length [''form-thing''] \<le> 1"
          "\<not> (''form-thing'' = ''component'' \<and> ([] :: Node list) \<noteq> [])"
          "targetComponent ?r ''form-thing'' = Some form_thing_resolution"
    using f
    by (simp_all add: rootInScope_def at_index_def initial_state_def targetComponent_def
        builtInKeywords_def isIgnoredComponent_def form_rules_resolver_fields
        form_thing_resolution_def nameHintOf_def)
  have w3: "BlockStatement_visit ?r block_form_thing initial_state
     = Inr (BlockStatement (builders_path ''formThing_'') []
              (Hash [title_pair] ((1, 14), (1, 36))) (Block [] []) None ((1, 0), (1, 54)),
            initial_state
              \<lparr> bound := [(''#embroider_compat/components/form-thing'', ''form-thing_'')],
                scopeStack :=
                  [Marker \<lparr> resolution = form_thing_resolution,
                            live_argumentsAreComponents = [''title''],
                            exit = BlockStatementExit ''form-thing'' 0 \<rparr>,
                   BlockParams []],
                captured :=
                  [BlockStatement (builders_path ''formThing_'') []
                     (Hash [title_pair] ((1, 14), (1, 36))) (Block [] []) None
                     ((1, 0), (1, 54))] \<rparr>)"
    using dynamic_component_resolution [OF f, where st = initial_state
            and parts = "[''form-thing'']" and orig = "''form-thing''" and args = "[]"
            and c = form_thing_resolution and data = False and pl = "((1, 3), (1, 13))"
            and hash = "Hash [title_pair] ((1, 14), (1, 36))" and program = "Block [] []"
            and inverseBlock = None and l = "((1, 0), (1, 54))",
            THEN conjunct2, THEN conjunct2, THEN conjunct2, THEN conjunct2, THEN conjunct2,
            THEN conjunct2, THEN conjunct2, THEN conjunct2, THEN conjunct1]
          b
    by (simp add: block_form_thing_def form_thing_resolution_def form_rules_resolver_fields
        rootNameOf_def at_index_def initial_state_def toUpperCase_def)
  have a: "findIndex (attrMatches ''title'') [title_pair] = Some 0"
          "attrValue ([title_pair] ! 0)
             = PathExpression ''this.x'' True False [''x''] ((1, 30), (1, 36))"
          "\<not> fst (safeComponentInScope ''this.x'' (scopeStack initial_state))"
          "''this.x'' \<notin> ownSafeInteriorPaths ?r"
    by (simp_all add: title_pair_def this_x_def safeComponentInScope_def initial_state_def
        Let_def ownSafeInteriorPaths_def findRules_def form_rules_resolver_fields)
  have w4: "handleDynamicComponentArguments ?r ''form-thing'' [''title''] [title_pair]
              initial_state
     = Inl (TemplateResolverError
              (impliedMessage (Some (''form-thing'', ''title''))
                 @ '': this.x in templates/application.hbs'')
              ((1, 30), (1, 36)) ''/app/templates/application.hbs'')"
    using dynamic_component_resolution [OF f, where st = initial_state
            and name = "''title''" and attrs = "[title_pair]" and i = 0
            and p = "''this.x''" and t = True and d = False and ps = "[''x'']"
            and ?l0.0 = "((1, 30), (1, 36))" and componentName = "''form-thing''"
            and names = "[]",
            THEN conjunct2, THEN conjunct2, THEN conjunct2, THEN conjunct2, THEN conjunct2,
            THEN conjunct2, THEN conjunct2, THEN conjunct1]
          a
    by (simp add: errorOutcome_def impliedMessage_def form_rules_resolver_fields
        toggles_fields)
  from w1 w2 w3 w4 show ?thesis by blast
qed

text \<open>
  Claim C7, as stated: a nested component or trusted sub-call is left untouched and any
  other expression is an error. The two mustache calls with arguments are not treated
  alike: \<^verbatim>\<open>{{component "fancy-title"}}\<close>, which is not a sub-call, gets no resolution, and
  \<^verbatim>\<open>{{ensure-safe-component this.x}}\<close> gets the error.
\<close>

theorem curly_component_call_counterexample:
  "fst (handleComponentHelper (example_resolver (toggles True False False) False)
          curly_component_call (Some (''form-thing'', ''title'')) initial_state) = None
   \<and> fst (argumentKind curly_component_call) = OtherExpression
   \<and> fst (handleComponentHelper (example_resolver (toggles True False False) False)
          curly_trusted_call None initial_state)
     = Some (Error \<lparr> message = ''Unsafe dynamic component'',
                      detail = ''cannot statically analyze this expression'',
                      loc = ((1, 0), (1, 0)) \<rparr>)"
  by (simp add: curly_component_call_def curly_trusted_call_def curly_def this_x_def
      resolveLocator_def targetComponentHelper_def staticComponentsEnabled_def
      example_resolver_fields toggles_fields impliedMessage_def)

text \<open>
  For a curly call the name handed to \<^verbatim>\<open>handleDynamicComponentArguments\<close> is
  \<^verbatim>\<open>node.path.original\<close> read after \<^verbatim>\<open>emit\<close> has replaced the callee: the message names
  the identifier the component was bound to.
\<close>

lemma curly_argument_message_names_binding:
  "MustacheStatement_enter (form_rules_resolver True) None
     (curly ''form-thing'' [] [title_pair]) initial_state
   = Inl (TemplateResolverError
            (impliedMessage (Some (''formThing_'', ''title''))
               @ '': this.x in templates/application.hbs'')
            ((1, 30), (1, 36)) ''/app/templates/application.hbs'')"
proof -
  let ?r = "form_rules_resolver True"
  have e: "staticComponentsEnabled ?r" "staticHelpersEnabled ?r"
    by (simp_all add: staticComponentsEnabled_def staticHelpersEnabled_def
        form_rules_resolver_fields toggles_fields)
  have t: "targetHelperOrComponent ?r ''form-thing'' ((1, 2), (1, 12)) True initial_state
             = Inr (Some (Component (form_thing_resolution
                      \<lparr> specifier := ''#embroider_compat/ambiguous/form-thing'' \<rparr>)),
                    initial_state)"
    using e
    by (simp add: targetHelperOrComponent_def builtInKeywords_def isIgnoredComponent_def
        form_rules_resolver_fields ownDisambiguation_def findRules_def
        form_thing_resolution_def nameHintOf_def Let_def)
  let ?st1 = "initial_state
                \<lparr> bound := [(''#embroider_compat/ambiguous/form-thing'', ''form-thing_'')] \<rparr>"
  have a: "findIndex (attrMatches ''title'') [title_pair] = Some 0"
          "attrValue ([title_pair] ! 0)
             = PathExpression ''this.x'' True False [''x''] ((1, 30), (1, 36))"
          "\<not> fst (safeComponentInScope ''this.x'' (scopeStack ?st1))"
          "''this.x'' \<notin> ownSafeInteriorPaths ?r"
    by (simp_all add: title_pair_def this_x_def safeComponentInScope_def initial_state_def
        Let_def ownSafeInteriorPaths_def findRules_def form_rules_resolver_fields)
  have h: "handleDynamicComponentArguments ?r ''formThing_'' [''title''] [title_pair] ?st1
             = Inl (TemplateResolverError
                      (impliedMessage (Some (''formThing_'', ''title''))
                         @ '': this.x in templates/application.hbs'')
                      ((1, 30), (1, 36)) ''/app/templates/application.hbs'')"
    unfolding argument_unsafe_path [OF e(1) a]
    by (simp add: errorOutcome_def form_rules_resolver_fields toggles_fields)
  have i: "bound initial_state = []" "scopeStack initial_state = [BlockParams []]"
    by (simp_all add: initial_state_def)
  show ?thesis
    using t h
    by (simp add: MustacheStatement_enter_def curly_def rootInScope_def at_index_def
        emit_def form_rules_resolver_fields form_thing_resolution_def toUpperCase_def
        builders_path_def i del: handleDynamicComponentArguments.simps)
qed

section \<open>The scope stack during a walk\<close>

text \<open>
  Every function of the resolver other than \<^verbatim>\<open>push\<close>, \<^verbatim>\<open>enteringComponentBlock\<close> and
  \<^verbatim>\<open>pop\<close> leaves the shape of the stack as it was; the visitors of block statements and
  elements push a marker, or a marker and a frame.
\<close>

lemma shape_simps [simp]:
  "shape [] = []" "shape (x # s) = isMarker x # shape s"
  "shape (drop n s) = drop n (shape s)"
  by (simp_all add: shape_def drop_map)

lemma scanStack_shape: "shape (snd (scanStack parts stack)) = shape stack"
  by (induction parts stack rule: scanStack.induct)
     (auto split: option.splits prod.splits)

lemma safeComponentInScope_shape: "shape (snd (safeComponentInScope name stack)) = shape stack"
  by (simp add: safeComponentInScope_def scanStack_shape Let_def)

lemma handleComponentHelper_shape:
  "shape (scopeStack (snd (handleComponentHelper r param implied st))) = shape (scopeStack st)"
proof (induction r param implied st rule: handleComponentHelper.induct)
  case (2 r orig t d ps l impliedBecause st)
  show ?case
    using safeComponentInScope_shape [of orig "scopeStack st"]
    by (auto simp: resolveLocator_def split: prod.splits)
qed (simp_all add: resolveLocator_def)

lemma reportError_stack: "reportError r dep st = Inr st' \<Longrightarrow> scopeStack st' = scopeStack st"
  by (auto simp: reportError_def split: if_splits)

lemma emit_stack: "emit r res setter node st = Inr (n, st') \<Longrightarrow> scopeStack st' = scopeStack st"
  by (auto simp: emit_def dest: reportError_stack split: option.splits Resolution.splits sum.splits)

lemma handleDynamicComponentArguments_shape:
  "handleDynamicComponentArguments r c names attrs st = Inr (as, st')
     \<Longrightarrow> shape (scopeStack st') = shape (scopeStack st)"
proof (induction r c names attrs st rule: handleDynamicComponentArguments.induct)
  case (1 r componentName attributes st)
  then show ?case by simp
next
  case (2 r componentName name names attributes st)
  show ?case
  proof (cases "findIndex (attrMatches name) attributes")
    case None
    with 2 show ?thesis by simp
  next
    case (Some i)
    obtain res st1 where h: "handleComponentHelper r (attrValue (attributes ! i))
                               (Some (componentName, name)) st = (res, st1)"
      by (cases "handleComponentHelper r (attrValue (attributes ! i))
                   (Some (componentName, name)) st") auto
    have s1: "shape (scopeStack st1) = shape (scopeStack st)"
      using handleComponentHelper_shape
              [of r "attrValue (attributes ! i)" "Some (componentName, name)" st] h
      by simp
    from "2.prems" Some h obtain attr' st2 where
        e: "emit r res setValue (attributes ! i) st1 = Inr (attr', st2)"
      and rest: "handleDynamicComponentArguments r componentName names
                   (attributes[i := attr']) st2 = Inr (as, st')"
      by (auto split: sum.splits)
    have "shape (scopeStack st') = shape (scopeStack st2)"
      using "2.IH"(2) [OF Some refl h [symmetric] refl e refl rest] .
    with emit_stack [OF e] s1 show ?thesis by simp
  qed
qed

lemma targetHelperOrComponent_stack:
  "targetHelperOrComponent r path l hasArgs st = Inr (res, st')
     \<Longrightarrow> scopeStack st' = scopeStack st"
  by (auto simp: targetHelperOrComponent_def Let_def dest: reportError_stack
      split: if_splits option.splits Disambiguation.splits sum.splits)

lemma MustacheStatement_enter_shape:
  assumes "MustacheStatement_enter r parent node st = Inr (n, st')"
  shows "shape (scopeStack st') = shape (scopeStack st)"
proof (cases node)
  case (MustacheStatement path params hash l)
  show ?thesis
  proof (cases path)
    case (PathExpression orig this data parts pl)
    note [simp] = MustacheStatement PathExpression
    consider (skip) "rootInScope parts (scopeStack st) \<or> this \<or> length parts > 1 \<or> prefix ''@'' orig"
      | (cmp) "\<not> (rootInScope parts (scopeStack st) \<or> this \<or> length parts > 1 \<or> prefix ''@'' orig)"
               "orig = ''component'' \<and> params \<noteq> []"
      | (hlp) "\<not> (rootInScope parts (scopeStack st) \<or> this \<or> length parts > 1 \<or> prefix ''@'' orig)"
               "\<not> (orig = ''component'' \<and> params \<noteq> [])" "orig = ''helper'' \<and> params \<noteq> []"
      | (attr) "\<not> (rootInScope parts (scopeStack st) \<or> this \<or> length parts > 1 \<or> prefix ''@'' orig)"
               "\<not> (orig = ''component'' \<and> params \<noteq> [])" "\<not> (orig = ''helper'' \<and> params \<noteq> [])"
               "isAttrNode parent"
      | (amb) "\<not> (rootInScope parts (scopeStack st) \<or> this \<or> length parts > 1 \<or> prefix ''@'' orig)"
               "\<not> (orig = ''component'' \<and> params \<noteq> [])" "\<not> (orig = ''helper'' \<and> params \<noteq> [])"
               "\<not> isAttrNode parent"
      by blast
    then show ?thesis
    proof cases
      case skip
      with assms have "st' = st"
        by (auto simp: MustacheStatement_enter_def split: if_splits)
      then show ?thesis by simp
    next
      case cmp
      obtain res st1 where h: "handleComponentHelper r (params ! 0) None st = (res, st1)"
        by (cases "handleComponentHelper r (params ! 0) None st") auto
      have "shape (scopeStack st1) = shape (scopeStack st)"
        using handleComponentHelper_shape [of r "params ! 0" None st] h by simp
      moreover have "emit r res setParam0 node st1 = Inr (n, st')"
        using assms cmp h by (auto simp: MustacheStatement_enter_def)
      ultimately show ?thesis using emit_stack by fastforce
    next
      case hlp
      with assms have "emit r (handleDynamicHelper r (params ! 0)) setParam0 node st = Inr (n, st')"
        by (auto simp: MustacheStatement_enter_def)
      then show ?thesis using emit_stack by fastforce
    next
      case attr
      with assms have "emit r (targetHelper r orig) setPath node st = Inr (n, st')"
        by (auto simp: MustacheStatement_enter_def)
      then show ?thesis using emit_stack by fastforce
    next
      case amb
      from assms amb obtain res st1 node1 st2 where
          t: "targetHelperOrComponent r orig pl (params \<noteq> [] \<or> pairs hash \<noteq> []) st = Inr (res, st1)"
        and e: "emit r res setPath node st1 = Inr (node1, st2)"
        and d: "(case res of
                   Some (Component c) \<Rightarrow>
                     (case handleDynamicComponentArguments r (original (nodePath node1))
                             (argumentsAreComponents c) (pairs hash) st2 of
                        Inl e \<Rightarrow> Inl e
                      | Inr (ps', st3) \<Rightarrow> Inr (setPairs node1 ps', st3))
                 | _ \<Rightarrow> Inr (node1, st2)) = Inr (n, st')"
        by (auto simp: MustacheStatement_enter_def split: sum.splits)
      have s12: "shape (scopeStack st2) = shape (scopeStack st)"
        using targetHelperOrComponent_stack [OF t] emit_stack [OF e] by simp
      from d have "shape (scopeStack st') = shape (scopeStack st2)"
        by (auto split: option.splits Resolution.splits sum.splits
            dest: handleDynamicComponentArguments_shape)
      with s12 show ?thesis by simp
    qed
  qed (use assms MustacheStatement in \<open>auto simp: MustacheStatement_enter_def\<close>)
qed (use assms in \<open>auto simp: MustacheStatement_enter_def\<close>)

lemma SubExpression_visit_shape:
  assumes "SubExpression_visit r node st = Inr (n, st')"
  shows "shape (scopeStack st') = shape (scopeStack st)"
proof (cases node)
  case (SubExpression path params hash l)
  show ?thesis
  proof (cases path)
    case (PathExpression orig this data parts pl)
    note [simp] = SubExpression PathExpression
    show ?thesis
    proof (cases "\<not> this \<and> \<not> rootInScope parts (scopeStack st) \<and> orig = ''component'' \<and> params \<noteq> []")
      case True
      obtain res st1 where h: "handleComponentHelper r (params ! 0) None st = (res, st1)"
        by (cases "handleComponentHelper r (params ! 0) None st") auto
      have "shape (scopeStack st1) = shape (scopeStack st)"
        using handleComponentHelper_shape [of r "params ! 0" None st] h by simp
      moreover have "emit r res setParam0 node st1 = Inr (n, st')"
        using assms True h by (auto simp: SubExpression_visit_def)
      ultimately show ?thesis using emit_stack by fastforce
    next
      case False
      with assms show ?thesis
        by (auto simp: SubExpression_visit_def split: if_splits dest!: emit_stack)
    qed
  qed (use assms SubExpression in \<open>auto simp: SubExpression_visit_def\<close>)
qed (use assms in \<open>auto simp: SubExpression_visit_def\<close>)

lemma ElementModifierStatement_visit_shape:
  assumes "ElementModifierStatement_visit r node st = Inr (n, st')"
  shows "shape (scopeStack st') = shape (scopeStack st)"
  using assms
  by (auto simp: ElementModifierStatement_visit_def split: Node.splits if_splits
      dest!: emit_stack)

lemma BlockStatement_visit_shape:
  assumes "BlockStatement_visit r node st = Inr (n, st')"
  shows "shape (scopeStack st') = shape (scopeStack st)
         \<or> shape (scopeStack st') = True # shape (scopeStack st)"
proof (cases node)
  case (BlockStatement path params hash program inverseBlock l)
  show ?thesis
  proof (cases path)
    case (PathExpression orig this data parts pl)
    note [simp] = BlockStatement PathExpression
    show ?thesis
    proof (cases "\<not> rootInScope parts (scopeStack st) \<and> \<not> this \<and> \<not> length parts > 1
                  \<and> orig = ''component'' \<and> params \<noteq> []")
      case True
      obtain res st1 where h: "handleComponentHelper r (params ! 0) None st = (res, st1)"
        by (cases "handleComponentHelper r (params ! 0) None st") auto
      have "shape (scopeStack st1) = shape (scopeStack st)"
        using handleComponentHelper_shape [of r "params ! 0" None st] h by simp
      moreover have "emit r res setParam0 node st1 = Inr (n, st')"
        using assms True h by (auto simp: BlockStatement_visit_def)
      ultimately show ?thesis using emit_stack by fastforce
    next
      case False
      with assms show ?thesis
        by (auto simp: BlockStatement_visit_def enteringComponentBlock_def Let_def
            split: if_splits sum.splits option.splits dest!: emit_stack)
    qed
  qed (use assms BlockStatement in \<open>auto simp: BlockStatement_visit_def\<close>)
qed (use assms in \<open>auto simp: BlockStatement_visit_def\<close>)

lemma ElementNode_enter_shape:
  assumes "ElementNode_enter r node st = Inr (n, st')"
    and "node = ElementNode tag attrs mods children comments bps l"
  shows "shape (scopeStack st') = False # shape (scopeStack st)
         \<or> shape (scopeStack st') = False # True # shape (scopeStack st)"
  using assms
  by (auto simp: ElementNode_enter_def enteringComponentBlock_def push_def Let_def
      split: if_splits sum.splits option.splits list.splits dest!: emit_stack)

lemma callExit_shape:
  "callExit r marker st = Inr st' \<Longrightarrow> shape (scopeStack st') = shape (scopeStack st)"
  by (auto simp: callExit_def Let_def split: ExitClosure.splits sum.splits
      dest: handleDynamicComponentArguments_shape)

lemma pop_shape: "pop r st = Inr st' \<Longrightarrow> shape (scopeStack st') = popShape (shape (scopeStack st))"
proof -
  assume a: "pop r st = Inr st'"
  show ?thesis
  proof (cases "scopeStack st")
    case Nil
    with a show ?thesis by (auto simp: pop_def)
  next
    case (Cons x xs)
    show ?thesis
    proof (cases xs)
      case Nil
      with a Cons show ?thesis by (auto simp: pop_def)
    next
      case (Cons y ys)
      show ?thesis
      proof (cases y)
        case (BlockParams b)
        with a Cons \<open>scopeStack st = x # xs\<close> show ?thesis by (auto simp: pop_def)
      next
        case (Marker m)
        with a Cons \<open>scopeStack st = x # xs\<close> obtain st1 where
            c: "callExit r m (st\<lparr> scopeStack := Marker m # ys \<rparr>) = Inr st1"
          and s: "st' = st1\<lparr> scopeStack := drop 1 (scopeStack st1) \<rparr>"
          by (auto simp: pop_def split: sum.splits)
        from callExit_shape [OF c] have "shape (scopeStack st1) = True # shape ys" by simp
        with s Marker Cons \<open>scopeStack st = x # xs\<close> show ?thesis by simp
      qed
    qed
  qed
qed

text \<open>
  The enter hooks keep the type of a node and give back a flat, respectively well-formed,
  node.
\<close>

lemma flat_wellFormed: "flat node \<Longrightarrow> wellFormed node"
  by (cases node) simp_all

lemma flat_builders [simp]: "flat (builders_path name)" "flat x \<Longrightarrow> flat (builders_mustache x)"
  by (simp_all add: builders_path_def builders_mustache_def)

lemma preserved_refl [simp]: "preserved node node"
  by (simp add: preserved_def)

lemma preserved_trans: "preserved a b \<Longrightarrow> preserved b c \<Longrightarrow> preserved a c"
  by (simp add: preserved_def)

lemma preserved_setPath: "flat x \<Longrightarrow> preserved node (setPath node x)"
  by (cases node) (simp_all add: preserved_def)

lemma preserved_setParam0:
  assumes "flat x"
  shows "preserved node (setParam0 node x)"
proof (cases node)
  case (MustacheStatement p xs h l)
  with assms show ?thesis by (cases xs) (simp_all add: preserved_def)
next
  case (BlockStatement p xs h b i l)
  with assms show ?thesis by (cases xs) (simp_all add: preserved_def)
next
  case (SubExpression p xs h l)
  with assms show ?thesis by (cases xs) (simp_all add: preserved_def)
qed (simp_all add: preserved_def)

lemma preserved_setTag: "preserved node (setTag node x)"
  by (cases node) (simp_all add: preserved_def)

lemma preserved_setValue: "flat x \<Longrightarrow> preserved node (setValue node x)"
  by (cases node) (simp_all add: preserved_def)

lemma preserved_setPairs:
  assumes "list_all flat ps"
  shows "preserved node (setPairs node ps)"
proof (cases node)
  case (MustacheStatement p xs h l)
  with assms show ?thesis by (cases h) (simp_all add: preserved_def)
next
  case (BlockStatement p xs h b i l)
  with assms show ?thesis by (cases h) (simp_all add: preserved_def)
qed (simp_all add: preserved_def)

lemma emit_preserved:
  assumes "emit r res setter node st = Inr (n, st')"
    and "\<And>x. flat x \<Longrightarrow> preserved node (setter node x)"
  shows "preserved node n"
  using assms
  by (auto simp: emit_def split: option.splits Resolution.splits sum.splits)

lemma list_all_update: "list_all P xs \<Longrightarrow> P y \<Longrightarrow> list_all P (xs[i := y])"
  by (induction xs arbitrary: i) (auto split: nat.splits)

lemma findIndex_less: "findIndex P xs = Some i \<Longrightarrow> i < length xs"
  by (induction xs arbitrary: i) (auto split: if_splits option.splits)

lemma handleDynamicComponentArguments_flat:
  "handleDynamicComponentArguments r c names attrs st = Inr (as, st')
     \<Longrightarrow> list_all flat attrs \<Longrightarrow> list_all flat as"
proof (induction r c names attrs st rule: handleDynamicComponentArguments.induct)
  case (1 r componentName attributes st)
  then show ?case by simp
next
  case (2 r componentName name names attributes st)
  show ?case
  proof (cases "findIndex (attrMatches name) attributes")
    case None
    with 2 show ?thesis by simp
  next
    case (Some i)
    obtain res st1 where h: "handleComponentHelper r (attrValue (attributes ! i))
                               (Some (componentName, name)) st = (res, st1)"
      by (cases "handleComponentHelper r (attrValue (attributes ! i))
                   (Some (componentName, name)) st") auto
    from "2.prems" Some h obtain attr' st2 where
        e: "emit r res setValue (attributes ! i) st1 = Inr (attr', st2)"
      and rest: "handleDynamicComponentArguments r componentName names
                   (attributes[i := attr']) st2 = Inr (as, st')"
      by (auto split: sum.splits)
    have fi: "flat (attributes ! i)"
      using "2.prems"(2) findIndex_less [OF Some] by (simp add: list_all_length)
    have "preserved (attributes ! i) attr'"
      using emit_preserved [OF e] preserved_setValue by blast
    with fi have "flat attr'" by (simp add: preserved_def)
    with "2.prems"(2) have "list_all flat (attributes[i := attr'])"
      by (simp add: list_all_update)
    with "2.IH"(2) [OF Some refl h [symmetric] refl e refl rest] show ?thesis .
  qed
qed

lemma flat_pairs: "flat h \<Longrightarrow> list_all flat (pairs h)"
  by (cases h) simp_all

lemma wellFormed_nodeHash_pairs: "wellFormed node \<Longrightarrow> list_all flat (pairs (nodeHash node))"
proof (cases node)
  case (MustacheStatement p xs h l)
  assume "wellFormed node"
  with MustacheStatement show ?thesis by (simp add: flat_pairs)
next
  case (BlockStatement p xs h b i l)
  assume "wellFormed node"
  with BlockStatement show ?thesis by (simp add: flat_pairs)
next
  case (SubExpression p xs h l)
  assume "wellFormed node"
  with SubExpression show ?thesis by (simp add: flat_pairs)
next
  case (ElementModifierStatement p xs h l)
  assume "wellFormed node"
  with ElementModifierStatement show ?thesis by (simp add: flat_pairs)
next
  case (Hash ps l)
  assume "wellFormed node"
  with Hash show ?thesis by simp
qed simp_all

lemma MustacheStatement_enter_preserved:
  assumes "MustacheStatement_enter r parent node st = Inr (n, st')" and "wellFormed node"
  shows "preserved node n"
proof (cases node)
  case (MustacheStatement path params hash l)
  show ?thesis
  proof (cases path)
    case (PathExpression orig this data parts pl)
    note [simp] = MustacheStatement PathExpression
    have fh: "list_all flat (pairs hash)" using assms(2) by (simp add: flat_pairs)
    consider (skip) "rootInScope parts (scopeStack st) \<or> this \<or> length parts > 1 \<or> prefix ''@'' orig"
      | (cmp) "\<not> (rootInScope parts (scopeStack st) \<or> this \<or> length parts > 1 \<or> prefix ''@'' orig)"
               "orig = ''component'' \<and> params \<noteq> []"
      | (hlp) "\<not> (rootInScope parts (scopeStack st) \<or> this \<or> length parts > 1 \<or> prefix ''@'' orig)"
               "\<not> (orig = ''component'' \<and> params \<noteq> [])" "orig = ''helper'' \<and> params \<noteq> []"
      | (attr) "\<not> (rootInScope parts (scopeStack st) \<or> this \<or> length parts > 1 \<or> prefix ''@'' orig)"
               "\<not> (orig = ''component'' \<and> params \<noteq> [])" "\<not> (orig = ''helper'' \<and> params \<noteq> [])"
               "isAttrNode parent"
      | (amb) "\<not> (rootInScope parts (scopeStack st) \<or> this \<or> length parts > 1 \<or> prefix ''@'' orig)"
               "\<not> (orig = ''component'' \<and> params \<noteq> [])" "\<not> (orig = ''helper'' \<and> params \<noteq> [])"
               "\<not> isAttrNode parent"
      by blast
    then show ?thesis
    proof cases
      case skip
      with assms have "n = node"
        by (auto simp: MustacheStatement_enter_def split: if_splits)
      then show ?thesis by simp
    next
      case cmp
      obtain res st1 where h: "handleComponentHelper r (params ! 0) None st = (res, st1)"
        by (cases "handleComponentHelper r (params ! 0) None st") auto
      have "emit r res setParam0 node st1 = Inr (n, st')"
        using assms cmp h by (auto simp: MustacheStatement_enter_def)
      then show ?thesis using emit_preserved preserved_setParam0 by blast
    next
      case hlp
      with assms have "emit r (handleDynamicHelper r (params ! 0)) setParam0 node st = Inr (n, st')"
        by (auto simp: MustacheStatement_enter_def)
      then show ?thesis using emit_preserved preserved_setParam0 by blast
    next
      case attr
      with assms have "emit r (targetHelper r orig) setPath node st = Inr (n, st')"
        by (auto simp: MustacheStatement_enter_def)
      then show ?thesis using emit_preserved preserved_setPath by blast
    next
      case amb
      from assms amb obtain res st1 node1 st2 where
          e: "emit r res setPath node st1 = Inr (node1, st2)"
        and d: "(case res of
                   Some (Component c) \<Rightarrow>
                     (case handleDynamicComponentArguments r (original (nodePath node1))
                             (argumentsAreComponents c) (pairs hash) st2 of
                        Inl e \<Rightarrow> Inl e
                      | Inr (ps', st3) \<Rightarrow> Inr (setPairs node1 ps', st3))
                 | _ \<Rightarrow> Inr (node1, st2)) = Inr (n, st')"
        by (auto simp: MustacheStatement_enter_def split: sum.splits)
      have p1: "preserved node node1" using emit_preserved [OF e] preserved_setPath by blast
      from d have "preserved node1 n"
        by (auto split: option.splits Resolution.splits sum.splits
            intro!: preserved_setPairs handleDynamicComponentArguments_flat [OF _ fh])
      with p1 show ?thesis by (rule preserved_trans)
    qed
  qed (use assms MustacheStatement in \<open>auto simp: MustacheStatement_enter_def\<close>)
qed (use assms in \<open>auto simp: MustacheStatement_enter_def\<close>)

lemma SubExpression_visit_preserved:
  assumes "SubExpression_visit r node st = Inr (n, st')"
  shows "preserved node n"
proof (cases node)
  case (SubExpression path params hash l)
  show ?thesis
  proof (cases path)
    case (PathExpression orig this data parts pl)
    note [simp] = SubExpression PathExpression
    show ?thesis
    proof (cases "\<not> this \<and> \<not> rootInScope parts (scopeStack st) \<and> orig = ''component'' \<and> params \<noteq> []")
      case True
      obtain res st1 where h: "handleComponentHelper r (params ! 0) None st = (res, st1)"
        by (cases "handleComponentHelper r (params ! 0) None st") auto
      have "emit r res setParam0 node st1 = Inr (n, st')"
        using assms True h by (auto simp: SubExpression_visit_def)
      then show ?thesis using emit_preserved preserved_setParam0 by blast
    next
      case False
      with assms consider "n = node"
        | res where "emit r res setParam0 node st = Inr (n, st')"
        | res where "emit r res setPath node st = Inr (n, st')"
        by (auto simp: SubExpression_visit_def split: if_splits)
      then show ?thesis
        using emit_preserved preserved_setParam0 preserved_setPath
        by cases (simp, blast, blast)
    qed
  qed (use assms SubExpression in \<open>auto simp: SubExpression_visit_def\<close>)
qed (use assms in \<open>auto simp: SubExpression_visit_def\<close>)

lemma ElementModifierStatement_visit_preserved:
  assumes "ElementModifierStatement_visit r node st = Inr (n, st')"
  shows "preserved node n"
proof -
  from assms consider "n = node" | res where "emit r res setPath node st = Inr (n, st')"
    by (auto simp: ElementModifierStatement_visit_def split: Node.splits if_splits)
  then show ?thesis
    using emit_preserved preserved_setPath by cases (simp, blast)
qed

lemma BlockStatement_visit_preserved:
  assumes "BlockStatement_visit r node st = Inr (n, st')"
  shows "preserved node n"
proof (cases node)
  case (BlockStatement path params hash program inverseBlock l)
  show ?thesis
  proof (cases path)
    case (PathExpression orig this data parts pl)
    note [simp] = BlockStatement PathExpression
    show ?thesis
    proof (cases "\<not> rootInScope parts (scopeStack st) \<and> \<not> this \<and> \<not> length parts > 1
                  \<and> orig = ''component'' \<and> params \<noteq> []")
      case True
      obtain res st1 where h: "handleComponentHelper r (params ! 0) None st = (res, st1)"
        by (cases "handleComponentHelper r (params ! 0) None st") auto
      have "emit r res setParam0 node st1 = Inr (n, st')"
        using assms True h by (auto simp: BlockStatement_visit_def)
      then show ?thesis using emit_preserved preserved_setParam0 by blast
    next
      case False
      with assms consider "n = node"
        | res s1 where "emit r res setPath node st = Inr (n, s1)"
        by (auto simp: BlockStatement_visit_def Let_def
            split: if_splits sum.splits option.splits)
      then show ?thesis
        using emit_preserved preserved_setPath by cases (simp, blast)
    qed
  qed (use assms BlockStatement in \<open>auto simp: BlockStatement_visit_def\<close>)
qed (use assms in \<open>auto simp: BlockStatement_visit_def\<close>)

lemma ElementNode_enter_preserved:
  assumes "ElementNode_enter r node st = Inr (n, st')"
  shows "preserved node n"
proof -
  from assms consider "n = node" | res s1 where "emit r res setTag node st = Inr (n, s1)"
    by (auto simp: ElementNode_enter_def Let_def
        split: Node.splits if_splits sum.splits option.splits list.splits)
  then show ?thesis
    using emit_preserved preserved_setTag by cases (simp, blast)
qed

lemma enterNode_preserved:
  assumes "enterNode r parent node st = Inr (n, st')" and "wellFormed node"
  shows "preserved node n"
  using assms
  by (cases node)
     (auto simp: enterNode_def
       dest: MustacheStatement_enter_preserved SubExpression_visit_preserved
             ElementModifierStatement_visit_preserved BlockStatement_visit_preserved
             ElementNode_enter_preserved)

text \<open>
  Rules for \<open>walkOK\<close> along the combinators of the walk.
\<close>

lemma walkOK_return: "Q x st \<Longrightarrow> walkOK P Q ([], Finished x st)"
  by (simp add: walkOK_def)

lemma walkOK_andThen:
  assumes "walkOK P Q1 w" and "\<And>x st. Q1 x st \<Longrightarrow> walkOK P Q2 (f x st)"
  shows "walkOK P Q2 (andThen w f)"
proof (cases w)
  case (Pair seen out)
  show ?thesis
  proof (cases out)
    case (Finished x st)
    with assms Pair have "Q1 x st" by (simp add: walkOK_def)
    from assms(2) [OF this] assms(1) Pair Finished show ?thesis
      by (auto simp: walkOK_def andThen_def split: prod.splits)
  qed (use assms Pair in \<open>auto simp: walkOK_def andThen_def\<close>)
qed

lemma walkOK_weaken:
  assumes "walkOK P Q w" and "\<And>s. P s \<Longrightarrow> P' s" and "\<And>x st. Q x st \<Longrightarrow> Q' x st"
  shows "walkOK P' Q' w"
  using assms by (auto simp: walkOK_def)

lemma walkOK_observed:
  assumes "\<And>n st'. res = Inr (n, st') \<Longrightarrow> P (scopeStack st') \<and> Q n st'"
  shows "walkOK P Q (observed res)"
  using assms by (auto simp: walkOK_def observed_def split: sum.splits)

lemma walkOK_visitArray:
  assumes "\<And>x st. x \<in> set xs \<Longrightarrow> I st \<Longrightarrow> walkOK P (\<lambda>_ st'. I st') (visit x st)"
    and "I st"
  shows "walkOK P (\<lambda>_ st'. I st') (visitArray visit xs st)"
  using assms
proof (induction xs arbitrary: st)
  case Nil
  then show ?case by (simp add: walkOK_return)
next
  case (Cons x xs)
  show ?case
    unfolding visitArray.simps
  proof (rule walkOK_andThen [where ?Q1.0 = "\<lambda>_ st'. I st'"])
    show "walkOK P (\<lambda>_. I) (visit x st)" using Cons.prems by simp
  next
    fix x' st1 assume i: "I st1"
    show "walkOK P (\<lambda>_. I)
            (andThen (visitArray visit xs st1) (\<lambda>xs' st2. ([], Finished (x' # xs') st2)))"
    proof (rule walkOK_andThen [where ?Q1.0 = "\<lambda>_ st'. I st'"])
      show "walkOK P (\<lambda>_. I) (visitArray visit xs st1)"
        using Cons.IH [OF _ i] Cons.prems(1) by simp
    qed (simp add: walkOK_return)
  qed
qed

lemma walkOK_visitOptional:
  assumes "\<And>x st. child = Some x \<Longrightarrow> I st \<Longrightarrow> walkOK P (\<lambda>_ st'. I st') (visit x st)"
    and "I st"
  shows "walkOK P (\<lambda>_ st'. I st') (visitOptional visit child st)"
proof (cases child)
  case None
  with assms show ?thesis by (simp add: visitOptional_def walkOK_return)
next
  case (Some x)
  show ?thesis
    unfolding visitOptional_def Some option.case
    by (rule walkOK_andThen [where ?Q1.0 = "\<lambda>_ st'. I st'"])
       (use assms Some in \<open>simp_all add: walkOK_return\<close>)
qed

lemma keeps_return: "shape (scopeStack st) = sh \<Longrightarrow> keeps sh ([], Finished x st)"
  by (simp add: keeps_def walkOK_return)

lemma keeps_andThen:
  assumes "keeps sh w" and "\<And>x st. shape (scopeStack st) = sh \<Longrightarrow> keeps sh (f x st)"
  shows "keeps sh (andThen w f)"
  using assms unfolding keeps_def
  by (rule walkOK_andThen)

lemma keeps_visitArray:
  assumes "\<And>x st. x \<in> set xs \<Longrightarrow> shape (scopeStack st) = sh \<Longrightarrow> keeps sh (visit x st)"
    and "shape (scopeStack st) = sh"
  shows "keeps sh (visitArray visit xs st)"
  using assms unfolding keeps_def
  by (rule walkOK_visitArray [where I = "\<lambda>st. shape (scopeStack st) = sh"])

lemma visitsFlat_one:
  assumes "visitsFlat visit" and "flat x" and "shape (scopeStack st) = sh"
  shows "keeps sh (visit x st)"
proof -
  have "keeps (shape (scopeStack st)) (visit x st)"
    using assms(1,2) by (simp add: visitsFlat_def)
  then show ?thesis using assms(3) by simp
qed

lemma visitsFlat_list:
  assumes "visitsFlat visit" and "list_all flat xs" and "shape (scopeStack st) = sh"
  shows "keeps sh (visitArray visit xs st)"
proof (rule keeps_visitArray)
  fix x and st' :: State
  assume "x \<in> set xs" "shape (scopeStack st') = sh"
  with assms(2) show "keeps sh (visit x st')"
    by (intro visitsFlat_one [OF assms(1)]) (simp_all add: list_all_iff)
qed (rule assms(3))

lemma visitKeys_flat:
  assumes "visitsFlat visit" and "flat node" and "shape (scopeStack st) = sh"
  shows "keeps sh (visitKeys visit cell node st)"
proof (cases node)
  case (MustacheStatement p xs h l)
  with assms(2) have f: "flat p" "list_all flat xs" "flat h" by simp_all
  show ?thesis
    unfolding visitKeys_def MustacheStatement Node.case
    by (intro keeps_andThen keeps_return visitsFlat_one [OF assms(1)]
          visitsFlat_list [OF assms(1)] f assms(3))
next
  case (ElementModifierStatement p xs h l)
  with assms(2) have f: "flat p" "list_all flat xs" "flat h" by simp_all
  show ?thesis
    unfolding visitKeys_def ElementModifierStatement Node.case
    by (intro keeps_andThen keeps_return visitsFlat_one [OF assms(1)]
          visitsFlat_list [OF assms(1)] f assms(3))
next
  case (SubExpression p xs h l)
  with assms(2) have f: "flat p" "list_all flat xs" "flat h" by simp_all
  show ?thesis
    unfolding visitKeys_def SubExpression Node.case
    by (intro keeps_andThen keeps_return visitsFlat_one [OF assms(1)]
          visitsFlat_list [OF assms(1)] f assms(3))
next
  case (AttrNode name v l)
  with assms(2) have f: "flat v" by simp
  show ?thesis
    unfolding visitKeys_def AttrNode Node.case
    by (intro keeps_andThen keeps_return visitsFlat_one [OF assms(1)] f assms(3))
next
  case (ConcatStatement parts l)
  with assms(2) have f: "list_all flat parts" by simp
  show ?thesis
    unfolding visitKeys_def ConcatStatement Node.case
    by (intro keeps_andThen keeps_return visitsFlat_list [OF assms(1)] f assms(3))
next
  case (Hash ps l)
  with assms(2) have f: "list_all flat ps" by simp
  show ?thesis
    unfolding visitKeys_def Hash Node.case
    by (intro keeps_andThen keeps_return visitsFlat_list [OF assms(1)] f assms(3))
next
  case (HashPair key v l)
  with assms(2) have f: "flat v" by simp
  show ?thesis
    unfolding visitKeys_def HashPair Node.case
    by (intro keeps_andThen keeps_return visitsFlat_one [OF assms(1)] f assms(3))
qed (use assms in \<open>simp_all add: visitKeys_def keeps_return\<close>)

text \<open>
  Strict and loose shapes, and the walk of a flat node.
\<close>

lemma strict_loose: "strictShape sh \<Longrightarrow> looseShape sh"
  by (cases sh rule: looseShape.cases) simp_all

lemma strict_False: "strictShape (False # sh) \<longleftrightarrow> looseShape sh"
  by (cases sh rule: looseShape.cases) simp_all

lemma loose_strip: "looseShape sh \<Longrightarrow> strictShape (stripTop sh)"
  by (cases sh rule: looseShape.cases) simp_all

lemma popShape_push: "looseShape sh \<Longrightarrow> popShape (False # sh) = stripTop sh"
  by (cases sh rule: looseShape.cases) simp_all

lemma andThen_Finished:
  "snd (andThen w f) = Finished y st' \<Longrightarrow>
     \<exists>x st. snd w = Finished x st \<and> snd (f x st) = Finished y st'"
  by (cases w) (auto simp: andThen_def split: Outcome.splits prod.splits)

lemma walkOK_conj:
  "walkOK P Q w \<Longrightarrow> (\<And>x st. snd w = Finished x st \<Longrightarrow> R x) \<Longrightarrow>
     walkOK P (\<lambda>x st. Q x st \<and> R x) w"
  by (auto simp: walkOK_def)

lemma visitKeys_kind:
  "snd (visitKeys visit cell node st) = Finished n st' \<Longrightarrow> kind n = kind node"
  by (cases node)
     (auto simp: visitKeys_def dest!: andThen_Finished)

lemma exitNode_flat:
  "flat node \<Longrightarrow> exitNode r cell node st = ([], Finished node st)"
  by (cases node) (simp_all add: exitNode_def)

lemma flat_kind: "flat node \<Longrightarrow> kind n = kind node \<Longrightarrow> kind n \<notin> {0, 1, 3, 5}"
  by (cases node) auto

lemma exitNode_kind:
  "kind node \<notin> {0, 1, 5} \<Longrightarrow> exitNode r cell node st = ([], Finished node st)"
  by (cases node) (simp_all add: exitNode_def)

lemma enterNode_flat_shape:
  assumes "enterNode r parent node st = Inr (n, st')" and "flat node"
  shows "shape (scopeStack st') = shape (scopeStack st)"
  using assms
  by (cases node)
     (auto simp: enterNode_def
       dest: MustacheStatement_enter_shape SubExpression_visit_shape
             ElementModifierStatement_visit_shape)

lemma visitNode_flat:
  assumes A: "\<And>parent. visitsFlat (visit parent)" and f: "flat node"
  shows "keeps (shape (scopeStack st)) (visitNode r visit parent node st)"
  unfolding visitNode_def keeps_def
proof (rule walkOK_andThen
    [where ?Q1.0 = "\<lambda>n st'. shape (scopeStack st') = shape (scopeStack st) \<and> flat n
                       \<and> kind n = kind node"])
  show "walkOK (\<lambda>s. shape s = shape (scopeStack st))
          (\<lambda>n st'. shape (scopeStack st') = shape (scopeStack st) \<and> flat n \<and> kind n = kind node)
          (observed (enterNode r parent node st))"
  proof (rule walkOK_observed)
    fix n and st' :: State
    assume e: "enterNode r parent node st = Inr (n, st')"
    have "preserved node n" using enterNode_preserved [OF e] f flat_wellFormed by blast
    with f enterNode_flat_shape [OF e f]
    show "shape (scopeStack st') = shape (scopeStack st)
          \<and> shape (scopeStack st') = shape (scopeStack st) \<and> flat n \<and> kind n = kind node"
      by (simp add: preserved_def)
  qed
next
  fix node1 and st1 :: State
  assume q: "shape (scopeStack st1) = shape (scopeStack st) \<and> flat node1
               \<and> kind node1 = kind node"
  let ?cell = "if length (captured st) < length (captured st1)
               then Some (length (captured st)) else None"
  show "walkOK (\<lambda>s. shape s = shape (scopeStack st))
          (\<lambda>_ st'. shape (scopeStack st') = shape (scopeStack st))
          (andThen (visitKeys (visit (Some node1)) ?cell node1 st1)
             (\<lambda>node2 st2. exitNode r ?cell node2 st2))"
  proof (rule walkOK_andThen
      [where ?Q1.0 = "\<lambda>n st'. shape (scopeStack st') = shape (scopeStack st)
                         \<and> kind n = kind node1"])
    have "keeps (shape (scopeStack st)) (visitKeys (visit (Some node1)) ?cell node1 st1)"
      using visitKeys_flat [OF A] q by blast
    then show "walkOK (\<lambda>s. shape s = shape (scopeStack st))
            (\<lambda>n st'. shape (scopeStack st') = shape (scopeStack st) \<and> kind n = kind node1)
            (visitKeys (visit (Some node1)) ?cell node1 st1)"
      unfolding keeps_def
      by (rule walkOK_conj) (rule visitKeys_kind)
  next
    fix node2 and st2 :: State
    assume q2: "shape (scopeStack st2) = shape (scopeStack st) \<and> kind node2 = kind node1"
    have "kind node2 \<notin> {0, 1, 5}" using q q2 flat_kind [of node1 node2] by auto
    then show "walkOK (\<lambda>s. shape s = shape (scopeStack st))
            (\<lambda>_ st'. shape (scopeStack st') = shape (scopeStack st))
            (exitNode r ?cell node2 st2)"
      using q2 by (simp add: exitNode_kind walkOK_return)
  qed
qed

lemma keeps_loose:
  "keeps sh w \<Longrightarrow> looseShape sh \<Longrightarrow> walkOK loose (\<lambda>_ st'. shape (scopeStack st') = sh) w"
  unfolding keeps_def by (erule walkOK_weaken) (simp_all add: loose_def)

lemma popObserved_ok:
  assumes "shape (scopeStack st) = sh" and "looseShape (drop 1 sh)"
    and "looseShape (popShape sh)"
  shows "walkOK loose (\<lambda>_ st'. shape (scopeStack st') = popShape sh) (popObserved r st)"
  using assms pop_shape [of r st]
  by (auto simp: popObserved_def walkOK_def loose_def split: sum.splits)

lemma Program_enter_shape:
  "shape (scopeStack (Program_enter r bps st)) =
     (case locals r of None \<Rightarrow> False # shape (scopeStack st)
      | Some ls \<Rightarrow> False # False # shape (scopeStack st))"
  by (simp add: Program_enter_def push_def Let_def split: option.splits)

lemma visitArray_well:
  assumes "visitsWell visit" and "list_all wellFormed xs"
    and "shape (scopeStack st) = sh" and "strictShape sh"
  shows "walkOK loose (\<lambda>_ st'. shape (scopeStack st') = sh) (visitArray (visit parent) xs st)"
proof (rule walkOK_visitArray [where I = "\<lambda>st. shape (scopeStack st) = sh"])
  fix x and st' :: State
  assume x: "x \<in> set xs" and s: "shape (scopeStack st') = sh"
  from assms(2) x have "wellFormed x" by (simp add: list_all_iff)
  moreover have "strictShape (shape (scopeStack st'))" using s assms(4) by simp
  ultimately
  have "walkOK loose (\<lambda>_ st''. shape (scopeStack st'') = shape (scopeStack st'))
          (visit parent x st')"
    using assms(1) unfolding visitsWell_def by blast
  with s show "walkOK loose (\<lambda>_ st''. shape (scopeStack st'') = sh) (visit parent x st')"
    by simp
qed (rule assms(3))

lemma exitProgram_ok:
  assumes "kind node \<in> {0, 1}" and "looseShape sh0"
    and "shape (scopeStack st) =
           (case locals r of None \<Rightarrow> False # sh0 | Some ls \<Rightarrow> False # False # sh0)"
  shows "walkOK loose (\<lambda>_ st'. shape (scopeStack st') = stripTop sh0) (exitNode r cell node st)"
proof (cases "locals r")
  case None
  have one: "walkOK loose (\<lambda>_ st'. shape (scopeStack st') = popShape (False # sh0))
               (popObserved r st)"
    using assms None
    by (intro popObserved_ok) (simp_all add: popShape_push strict_loose loose_strip)
  have "walkOK loose (\<lambda>_ st'. shape (scopeStack st') = stripTop sh0)
          (andThen (popObserved r st) (\<lambda>u st1. ([], Finished node st1)))"
    by (rule walkOK_andThen [OF one]) (simp add: walkOK_return popShape_push assms(2))
  with None assms(1) show ?thesis
    by (cases node) (simp_all add: exitNode_def)
next
  case (Some ls)
  have one: "walkOK loose (\<lambda>_ st'. shape (scopeStack st') = popShape (False # False # sh0))
               (popObserved r st)"
    using assms Some
    by (intro popObserved_ok) (simp_all add: strict_False strict_loose)
  have two: "\<And>st1. shape (scopeStack st1) = False # sh0 \<Longrightarrow>
               walkOK loose (\<lambda>_ st'. shape (scopeStack st') = stripTop sh0)
                 (andThen (popObserved r st1) (\<lambda>u st2. ([], Finished node st2)))"
  proof -
    fix st1 :: State assume s1: "shape (scopeStack st1) = False # sh0"
    have "walkOK loose (\<lambda>_ st'. shape (scopeStack st') = popShape (False # sh0))
            (popObserved r st1)"
      using s1 assms(2)
      by (intro popObserved_ok) (simp_all add: popShape_push strict_loose loose_strip)
    then show "walkOK loose (\<lambda>_ st'. shape (scopeStack st') = stripTop sh0)
                 (andThen (popObserved r st1) (\<lambda>u st2. ([], Finished node st2)))"
      by (rule walkOK_andThen) (simp add: walkOK_return popShape_push assms(2))
  qed
  have "walkOK loose (\<lambda>_ st'. shape (scopeStack st') = stripTop sh0)
          (andThen (popObserved r st)
             (\<lambda>u st1. andThen (popObserved r st1) (\<lambda>u st2. ([], Finished node st2))))"
    by (rule walkOK_andThen [OF one]) (simp add: two)
  with Some assms(1) show ?thesis
    by (cases node) (simp_all add: exitNode_def)
qed

lemma visitNode_program:
  assumes W: "visitsWell visit"
    and k: "kind node \<in> {0, 1}" and wf: "wellFormed node"
    and l: "looseShape (shape (scopeStack st))"
  shows "walkOK loose (\<lambda>_ st'. shape (scopeStack st') = stripTop (shape (scopeStack st)))
           (visitNode r visit parent node st)"
proof -
  let ?sh0 = "shape (scopeStack st)"
  let ?sh1 = "case locals r of None \<Rightarrow> False # ?sh0 | Some ls \<Rightarrow> False # False # ?sh0"
  have s1: "strictShape ?sh1"
    using l by (simp add: strict_False strict_loose split: option.splits)
  obtain bps body where nd: "node = Template bps body \<or> node = Block bps body"
    using k by (cases node) simp_all
  have en: "enterNode r parent node st = Inr (node, Program_enter r bps st)"
    using nd by (auto simp: enterNode_def)
  have bodywf: "list_all wellFormed body" using nd wf by auto
  show ?thesis
    unfolding visitNode_def
  proof (rule walkOK_andThen
      [where ?Q1.0 = "\<lambda>n st'. shape (scopeStack st') = ?sh1 \<and> n = node"])
    show "walkOK loose (\<lambda>n st'. shape (scopeStack st') = ?sh1 \<and> n = node)
            (observed (enterNode r parent node st))"
      using s1 by (intro walkOK_observed)
        (simp add: en Program_enter_shape loose_def strict_loose)
  next
    fix node1 and st1 :: State
    assume q: "shape (scopeStack st1) = ?sh1 \<and> node1 = node"
    let ?cell = "if length (captured st) < length (captured st1)
                 then Some (length (captured st)) else None"
    show "walkOK loose (\<lambda>_ st'. shape (scopeStack st') = stripTop ?sh0)
            (andThen (visitKeys (visit (Some node1)) ?cell node1 st1)
               (\<lambda>node2 st2. exitNode r ?cell node2 st2))"
    proof (rule walkOK_andThen
        [where ?Q1.0 = "\<lambda>n st'. shape (scopeStack st') = ?sh1 \<and> kind n = kind node"])
      have arr: "walkOK loose (\<lambda>_ st'. shape (scopeStack st') = ?sh1)
                   (visitArray (visit (Some node1)) body st1)"
        using visitArray_well [OF W bodywf _ s1] q by blast
      have vk: "visitKeys (visit (Some node1)) ?cell node1 st1 =
                  andThen (visitArray (visit (Some node1)) body st1)
                    (\<lambda>body' st1. ([], Finished (if kind node = 0 then Template bps body'
                                                 else Block bps body') st1))"
        using nd q by (auto simp: visitKeys_def)
      have "walkOK loose (\<lambda>_ st'. shape (scopeStack st') = ?sh1)
              (visitKeys (visit (Some node1)) ?cell node1 st1)"
        unfolding vk by (rule walkOK_andThen [OF arr]) (simp add: walkOK_return)
      then show "walkOK loose (\<lambda>n st'. shape (scopeStack st') = ?sh1 \<and> kind n = kind node)
                   (visitKeys (visit (Some node1)) ?cell node1 st1)"
        using q by (intro walkOK_conj) (auto dest: visitKeys_kind)
    next
      fix node2 and st2 :: State
      assume q2: "shape (scopeStack st2) = ?sh1 \<and> kind node2 = kind node"
      show "walkOK loose (\<lambda>_ st'. shape (scopeStack st') = stripTop ?sh0)
              (exitNode r ?cell node2 st2)"
        using q2 k l by (intro exitProgram_ok) simp_all
    qed
  qed
qed

lemma store_stack [simp]: "scopeStack (store cell node st) = scopeStack st"
  by (simp add: store_def split: option.splits)

lemma strict_head: "strictShape sh \<Longrightarrow> stripTop sh = sh"
  by (cases sh rule: looseShape.cases) simp_all

lemma visitOne_block:
  assumes "visitsBlock visit" and "isBlock b" and "wellFormed b"
    and "shape (scopeStack st) = sh" and "looseShape sh"
  shows "walkOK loose (\<lambda>_ st'. shape (scopeStack st') = stripTop sh) (visit parent b st)"
proof -
  have "kind b \<in> {0, 1}" using assms(2) by (cases b) simp_all
  with assms have "walkOK loose
      (\<lambda>_ st'. shape (scopeStack st') = stripTop (shape (scopeStack st))) (visit parent b st)"
    unfolding visitsBlock_def by blast
  with assms(4) show ?thesis by simp
qed

lemma visitNode_blockStatement:
  assumes A: "\<And>parent. visitsFlat (visit parent)" and B: "visitsBlock visit"
    and nd: "kind node = 3" and wf: "wellFormed node"
    and s0: "strictShape (shape (scopeStack st))"
  shows "walkOK loose (\<lambda>_ st'. shape (scopeStack st') = shape (scopeStack st))
           (visitNode r visit parent node st)"
proof -
  let ?sh0 = "shape (scopeStack st)"
  have en: "enterNode r parent node st = BlockStatement_visit r node st"
    using nd by (cases node) (simp_all add: enterNode_def)
  show ?thesis
    unfolding visitNode_def
  proof (rule walkOK_andThen
      [where ?Q1.0 = "\<lambda>n st'. (shape (scopeStack st') = ?sh0 \<or> shape (scopeStack st') = True # ?sh0)
                         \<and> wellFormed n \<and> kind n = 3"])
    show "walkOK loose
            (\<lambda>n st'. (shape (scopeStack st') = ?sh0 \<or> shape (scopeStack st') = True # ?sh0)
                         \<and> wellFormed n \<and> kind n = 3)
            (observed (enterNode r parent node st))"
    proof (rule walkOK_observed)
      fix n and st' :: State
      assume e: "enterNode r parent node st = Inr (n, st')"
      then have e': "BlockStatement_visit r node st = Inr (n, st')" using en by simp
      have p: "preserved node n" by (rule BlockStatement_visit_preserved [OF e'])
      from BlockStatement_visit_shape [OF e'] s0 p wf nd
      show "loose (scopeStack st')
            \<and> (shape (scopeStack st') = ?sh0 \<or> shape (scopeStack st') = True # ?sh0)
            \<and> wellFormed n \<and> kind n = 3"
        by (auto simp: loose_def preserved_def strict_loose)
    qed
  next
    fix node1 and st1 :: State
    assume q: "(shape (scopeStack st1) = ?sh0 \<or> shape (scopeStack st1) = True # ?sh0)
                 \<and> wellFormed node1 \<and> kind node1 = 3"
    let ?cell = "if length (captured st) < length (captured st1)
                 then Some (length (captured st)) else None"
    let ?sh1 = "shape (scopeStack st1)"
    have l1: "looseShape ?sh1" using q s0 by (auto simp: strict_loose)
    have st1: "stripTop ?sh1 = ?sh0" using q s0 by (auto simp: strict_head)
    obtain p xs h b i l where n1: "node1 = BlockStatement p xs h b i l"
      using q by (cases node1) simp_all
    with q have f: "flat p" "list_all flat xs" "flat h" "isBlock b" "wellFormed b"
        and fi: "\<And>ib. i = Some ib \<Longrightarrow> isBlock ib \<and> wellFormed ib"
      by simp_all
    have keys: "walkOK loose (\<lambda>_ st'. shape (scopeStack st') = ?sh0)
                  (visitKeys (visit (Some node1)) ?cell node1 st1)"
      unfolding visitKeys_def n1 Node.case
    proof (rule walkOK_andThen [where ?Q1.0 = "\<lambda>_ st'. shape (scopeStack st') = ?sh1"])
      show "walkOK loose (\<lambda>_ st'. shape (scopeStack st') = ?sh1)
              (visit (Some (BlockStatement p xs h b i l)) p st1)"
        by (intro keeps_loose visitsFlat_one [OF A] f l1) simp
    next
      fix p' and st2 :: State assume s2: "shape (scopeStack st2) = ?sh1"
      show "walkOK loose (\<lambda>_ st'. shape (scopeStack st') = ?sh0)
              (andThen (visitArray (visit (Some (BlockStatement p xs h b i l))) xs st2)
                (\<lambda>xs' st2.
                  andThen (visit (Some (BlockStatement p xs h b i l)) h st2)
                   (\<lambda>h' st3.
                     andThen (visit (Some (BlockStatement p xs h b i l)) b
                                (store ?cell (BlockStatement p' xs' h' b i l) st3))
                      (\<lambda>b' st4.
                        andThen (visitOptional (visit (Some (BlockStatement p xs h b i l))) i st4)
                         (\<lambda>i' st5.
                           ([], Finished
                                  (BlockStatement p' xs'
                                     (nodeHash (fetch ?cell (BlockStatement p' xs' h' b i l) st5))
                                     b' i' l)
                                  st5))))))"
      proof (rule walkOK_andThen [where ?Q1.0 = "\<lambda>_ st'. shape (scopeStack st') = ?sh1"])
        show "walkOK loose (\<lambda>_ st'. shape (scopeStack st') = ?sh1)
                (visitArray (visit (Some (BlockStatement p xs h b i l))) xs st2)"
          by (intro keeps_loose visitsFlat_list [OF A] f l1 s2)
      next
        fix xs' and st3 :: State assume s3: "shape (scopeStack st3) = ?sh1"
        show "walkOK loose (\<lambda>_ st'. shape (scopeStack st') = ?sh0)
                (andThen (visit (Some (BlockStatement p xs h b i l)) h st3)
                   (\<lambda>h' st3.
                     andThen (visit (Some (BlockStatement p xs h b i l)) b
                                (store ?cell (BlockStatement p' xs' h' b i l) st3))
                      (\<lambda>b' st4.
                        andThen (visitOptional (visit (Some (BlockStatement p xs h b i l))) i st4)
                         (\<lambda>i' st5.
                           ([], Finished
                                  (BlockStatement p' xs'
                                     (nodeHash (fetch ?cell (BlockStatement p' xs' h' b i l) st5))
                                     b' i' l)
                                  st5)))))"
        proof (rule walkOK_andThen [where ?Q1.0 = "\<lambda>_ st'. shape (scopeStack st') = ?sh1"])
          show "walkOK loose (\<lambda>_ st'. shape (scopeStack st') = ?sh1)
                  (visit (Some (BlockStatement p xs h b i l)) h st3)"
            by (intro keeps_loose visitsFlat_one [OF A] f l1 s3)
        next
          fix h' and st4 :: State assume s4: "shape (scopeStack st4) = ?sh1"
          show "walkOK loose (\<lambda>_ st'. shape (scopeStack st') = ?sh0)
                  (andThen (visit (Some (BlockStatement p xs h b i l)) b
                                (store ?cell (BlockStatement p' xs' h' b i l) st4))
                      (\<lambda>b' st4.
                        andThen (visitOptional (visit (Some (BlockStatement p xs h b i l))) i st4)
                         (\<lambda>i' st5.
                           ([], Finished
                                  (BlockStatement p' xs'
                                     (nodeHash (fetch ?cell (BlockStatement p' xs' h' b i l) st5))
                                     b' i' l)
                                  st5))))"
          proof (rule walkOK_andThen [where ?Q1.0 = "\<lambda>_ st'. shape (scopeStack st') = ?sh0"])
            have "walkOK loose (\<lambda>_ st'. shape (scopeStack st') = stripTop ?sh1)
                    (visit (Some (BlockStatement p xs h b i l)) b
                       (store ?cell (BlockStatement p' xs' h' b i l) st4))"
              by (rule visitOne_block [OF B f(4) f(5) _ l1]) (simp add: s4)
            then show "walkOK loose (\<lambda>_ st'. shape (scopeStack st') = ?sh0)
                    (visit (Some (BlockStatement p xs h b i l)) b
                       (store ?cell (BlockStatement p' xs' h' b i l) st4))"
              by (simp add: st1)
          next
            fix b' and st5 :: State assume s5: "shape (scopeStack st5) = ?sh0"
            show "walkOK loose (\<lambda>_ st'. shape (scopeStack st') = ?sh0)
                    (andThen (visitOptional (visit (Some (BlockStatement p xs h b i l))) i st5)
                         (\<lambda>i' st5.
                           ([], Finished
                                  (BlockStatement p' xs'
                                     (nodeHash (fetch ?cell (BlockStatement p' xs' h' b i l) st5))
                                     b' i' l)
                                  st5)))"
            proof (rule walkOK_andThen [where ?Q1.0 = "\<lambda>_ st'. shape (scopeStack st') = ?sh0"])
              show "walkOK loose (\<lambda>_ st'. shape (scopeStack st') = ?sh0)
                      (visitOptional (visit (Some (BlockStatement p xs h b i l))) i st5)"
              proof (rule walkOK_visitOptional
                  [where I = "\<lambda>st. shape (scopeStack st) = ?sh0"])
                fix ib and st6 :: State
                assume i: "i = Some ib" and s6: "shape (scopeStack st6) = ?sh0"
                have "walkOK loose (\<lambda>_ st'. shape (scopeStack st') = stripTop ?sh0)
                        (visit (Some (BlockStatement p xs h b i l)) ib st6)"
                  using fi [OF i] s0
                  by (intro visitOne_block [OF B _ _ s6]) (simp_all add: strict_loose)
                then show "walkOK loose (\<lambda>_ st'. shape (scopeStack st') = ?sh0)
                        (visit (Some (BlockStatement p xs h b i l)) ib st6)"
                  using s0 by (simp add: strict_head)
              qed (rule s5)
            qed (simp add: walkOK_return)
          qed
        qed
      qed
    qed
    show "walkOK loose (\<lambda>_ st'. shape (scopeStack st') = ?sh0)
            (andThen (visitKeys (visit (Some node1)) ?cell node1 st1)
               (\<lambda>node2 st2. exitNode r ?cell node2 st2))"
    proof (rule walkOK_andThen
        [where ?Q1.0 = "\<lambda>n st'. shape (scopeStack st') = ?sh0 \<and> kind n = kind node1"])
      show "walkOK loose (\<lambda>n st'. shape (scopeStack st') = ?sh0 \<and> kind n = kind node1)
              (visitKeys (visit (Some node1)) ?cell node1 st1)"
        using keys by (rule walkOK_conj) (rule visitKeys_kind)
    next
      fix node2 and st2 :: State
      assume "shape (scopeStack st2) = ?sh0 \<and> kind node2 = kind node1"
      with q show "walkOK loose (\<lambda>_ st'. shape (scopeStack st') = ?sh0)
                     (exitNode r ?cell node2 st2)"
        by (simp add: exitNode_kind walkOK_return)
    qed
  qed
qed

lemma visitNode_element:
  assumes A: "\<And>parent. visitsFlat (visit parent)" and W: "visitsWell visit"
    and nd: "kind node = 5" and wf: "wellFormed node"
    and s0: "strictShape (shape (scopeStack st))"
  shows "walkOK loose (\<lambda>_ st'. shape (scopeStack st') = shape (scopeStack st))
           (visitNode r visit parent node st)"
proof -
  let ?sh0 = "shape (scopeStack st)"
  obtain tag0 attrs0 mods0 children0 comments0 bps0 l0 where
      n0: "node = ElementNode tag0 attrs0 mods0 children0 comments0 bps0 l0"
    using nd by (cases node) simp_all
  have en: "enterNode r parent node st = ElementNode_enter r node st"
    using n0 by (simp add: enterNode_def)
  show ?thesis
    unfolding visitNode_def
  proof (rule walkOK_andThen
      [where ?Q1.0 = "\<lambda>n st'. (shape (scopeStack st') = False # ?sh0
                              \<or> shape (scopeStack st') = False # True # ?sh0)
                         \<and> wellFormed n \<and> kind n = 5"])
    show "walkOK loose
            (\<lambda>n st'. (shape (scopeStack st') = False # ?sh0
                              \<or> shape (scopeStack st') = False # True # ?sh0)
                         \<and> wellFormed n \<and> kind n = 5)
            (observed (enterNode r parent node st))"
    proof (rule walkOK_observed)
      fix n and st' :: State
      assume e: "enterNode r parent node st = Inr (n, st')"
      then have e': "ElementNode_enter r node st = Inr (n, st')" using en by simp
      have p: "preserved node n" by (rule ElementNode_enter_preserved [OF e'])
      from ElementNode_enter_shape [OF e' n0] s0 p wf nd
      show "loose (scopeStack st')
            \<and> (shape (scopeStack st') = False # ?sh0
                 \<or> shape (scopeStack st') = False # True # ?sh0)
            \<and> wellFormed n \<and> kind n = 5"
        by (auto simp: loose_def preserved_def strict_loose strict_False)
    qed
  next
    fix node1 and st1 :: State
    assume q: "(shape (scopeStack st1) = False # ?sh0
                 \<or> shape (scopeStack st1) = False # True # ?sh0)
               \<and> wellFormed node1 \<and> kind node1 = 5"
    let ?cell = "if length (captured st) < length (captured st1)
                 then Some (length (captured st)) else None"
    let ?sh1 = "shape (scopeStack st1)"
    have s1: "strictShape ?sh1" using q s0 by (auto simp: strict_loose strict_False)
    have l1: "looseShape ?sh1" using s1 by (rule strict_loose)
    have pop1: "popShape ?sh1 = ?sh0" "looseShape (drop 1 ?sh1)"
      using q s0 by (auto simp: popShape_push strict_loose strict_head)
    obtain tag attrs mods children comments bps l where
        n1: "node1 = ElementNode tag attrs mods children comments bps l"
      using q by (cases node1) simp_all
    with q have f: "list_all flat attrs" "list_all flat mods" "list_all wellFormed children"
        "list_all flat comments"
      by simp_all
    have keys: "walkOK loose (\<lambda>_ st'. shape (scopeStack st') = ?sh1)
                  (visitKeys (visit (Some node1)) ?cell node1 st1)"
      unfolding visitKeys_def n1 Node.case
    proof (rule walkOK_andThen [where ?Q1.0 = "\<lambda>_ st'. shape (scopeStack st') = ?sh1"])
      show "walkOK loose (\<lambda>_ st'. shape (scopeStack st') = ?sh1)
              (visitArray (visit (Some (ElementNode tag attrs mods children comments bps l)))
                 attrs st1)"
        by (intro keeps_loose visitsFlat_list [OF A] f l1) simp
    next
      fix attrs' and st2 :: State assume s2: "shape (scopeStack st2) = ?sh1"
      show "walkOK loose (\<lambda>_ st'. shape (scopeStack st') = ?sh1)
              (andThen
                (visitArray (visit (Some (ElementNode tag attrs mods children comments bps l)))
                   mods
                   (store ?cell (ElementNode tag attrs' mods children comments bps l) st2))
                (\<lambda>mods' st2.
                  andThen
                    (visitArray (visit (Some (ElementNode tag attrs mods children comments bps l)))
                       children st2)
                    (\<lambda>children' st3.
                      andThen
                        (visitArray
                           (visit (Some (ElementNode tag attrs mods children comments bps l)))
                           comments st3)
                        (\<lambda>comments' st4.
                          ([], Finished
                                 (ElementNode tag attrs' mods' children' comments' bps l)
                                 st4)))))"
      proof (rule walkOK_andThen [where ?Q1.0 = "\<lambda>_ st'. shape (scopeStack st') = ?sh1"])
        show "walkOK loose (\<lambda>_ st'. shape (scopeStack st') = ?sh1)
                (visitArray (visit (Some (ElementNode tag attrs mods children comments bps l)))
                   mods
                   (store ?cell (ElementNode tag attrs' mods children comments bps l) st2))"
          by (intro keeps_loose visitsFlat_list [OF A] f l1) (simp add: s2)
      next
        fix mods' and st3 :: State assume s3: "shape (scopeStack st3) = ?sh1"
        show "walkOK loose (\<lambda>_ st'. shape (scopeStack st') = ?sh1)
                (andThen
                    (visitArray (visit (Some (ElementNode tag attrs mods children comments bps l)))
                       children st3)
                    (\<lambda>children' st3.
                      andThen
                        (visitArray
                           (visit (Some (ElementNode tag attrs mods children comments bps l)))
                           comments st3)
                        (\<lambda>comments' st4.
                          ([], Finished
                                 (ElementNode tag attrs' mods' children' comments' bps l)
                                 st4))))"
        proof (rule walkOK_andThen [where ?Q1.0 = "\<lambda>_ st'. shape (scopeStack st') = ?sh1"])
          show "walkOK loose (\<lambda>_ st'. shape (scopeStack st') = ?sh1)
                  (visitArray (visit (Some (ElementNode tag attrs mods children comments bps l)))
                     children st3)"
            by (rule visitArray_well [OF W f(3) s3 s1])
        next
          fix children' and st4 :: State assume s4: "shape (scopeStack st4) = ?sh1"
          show "walkOK loose (\<lambda>_ st'. shape (scopeStack st') = ?sh1)
                  (andThen
                        (visitArray
                           (visit (Some (ElementNode tag attrs mods children comments bps l)))
                           comments st4)
                        (\<lambda>comments' st4.
                          ([], Finished
                                 (ElementNode tag attrs' mods' children' comments' bps l)
                                 st4)))"
          proof (rule walkOK_andThen [where ?Q1.0 = "\<lambda>_ st'. shape (scopeStack st') = ?sh1"])
            show "walkOK loose (\<lambda>_ st'. shape (scopeStack st') = ?sh1)
                    (visitArray
                       (visit (Some (ElementNode tag attrs mods children comments bps l)))
                       comments st4)"
              by (intro keeps_loose visitsFlat_list [OF A] f l1 s4)
          qed (simp add: walkOK_return)
        qed
      qed
    qed
    show "walkOK loose (\<lambda>_ st'. shape (scopeStack st') = ?sh0)
            (andThen (visitKeys (visit (Some node1)) ?cell node1 st1)
               (\<lambda>node2 st2. exitNode r ?cell node2 st2))"
    proof (rule walkOK_andThen
        [where ?Q1.0 = "\<lambda>n st'. shape (scopeStack st') = ?sh1 \<and> kind n = kind node1"])
      show "walkOK loose (\<lambda>n st'. shape (scopeStack st') = ?sh1 \<and> kind n = kind node1)
              (visitKeys (visit (Some node1)) ?cell node1 st1)"
        using keys by (rule walkOK_conj) (rule visitKeys_kind)
    next
      fix node2 and st2 :: State
      assume q2: "shape (scopeStack st2) = ?sh1 \<and> kind node2 = kind node1"
      then obtain tag2 attrs2 mods2 children2 comments2 bps2 l2 where
          n2: "node2 = ElementNode tag2 attrs2 mods2 children2 comments2 bps2 l2"
        using q by (cases node2) simp_all
      have po: "walkOK loose (\<lambda>_ st'. shape (scopeStack st') = popShape ?sh1)
                  (popObserved r st2)"
        using q2 pop1 s0 by (intro popObserved_ok) (simp_all add: strict_loose)
      show "walkOK loose (\<lambda>_ st'. shape (scopeStack st') = ?sh0)
                     (exitNode r ?cell node2 st2)"
        unfolding exitNode_def n2 Node.case
        by (rule walkOK_andThen [OF po]) (simp add: walkOK_return pop1)
    qed
  qed
qed

lemma visitNode_well:
  assumes A: "\<And>parent. visitsFlat (visit parent)" and W: "visitsWell visit"
    and B: "visitsBlock visit"
    and wf: "wellFormed node" and s0: "strictShape (shape (scopeStack st))"
  shows "walkOK loose (\<lambda>_ st'. shape (scopeStack st') = shape (scopeStack st))
           (visitNode r visit parent node st)"
proof -
  consider (prog) "kind node \<in> {0, 1}" | (blk) "kind node = 3" | (el) "kind node = 5"
    | (fl) "flat node"
    using wf by (cases node) simp_all
  then show ?thesis
  proof cases
    case prog
    have "walkOK loose (\<lambda>_ st'. shape (scopeStack st') = stripTop (shape (scopeStack st)))
            (visitNode r visit parent node st)"
      by (rule visitNode_program [OF W prog wf strict_loose [OF s0]])
    then show ?thesis using s0 by (simp add: strict_head)
  next
    case blk
    then show ?thesis by (rule visitNode_blockStatement [OF A B _ wf s0])
  next
    case el
    then show ?thesis by (rule visitNode_element [OF A W _ wf s0])
  next
    case fl
    show ?thesis
      by (rule keeps_loose [OF visitNode_flat [OF A fl] strict_loose [OF s0]])
  qed
qed

text \<open>
  The invariant of the walk, by induction on the bound.
\<close>

lemma walk_invariants:
  "(\<forall>parent. visitsFlat (walk fuel r parent)) \<and> visitsWell (walk fuel r)
   \<and> visitsBlock (walk fuel r)"
proof (induction fuel)
  case 0
  show ?case
    by (simp add: visitsFlat_def visitsWell_def visitsBlock_def keeps_def walkOK_def)
next
  case (Suc fuel)
  then have A: "\<And>parent. visitsFlat (walk fuel r parent)"
    and W: "visitsWell (walk fuel r)" and B: "visitsBlock (walk fuel r)"
    by simp_all
  have a: "\<forall>parent. visitsFlat (walk (Suc fuel) r parent)"
    unfolding visitsFlat_def by (auto intro: visitNode_flat [OF A])
  have w: "visitsWell (walk (Suc fuel) r)"
    unfolding visitsWell_def by (auto intro: visitNode_well [OF A W B])
  have b: "visitsBlock (walk (Suc fuel) r)"
    unfolding visitsBlock_def by (auto intro: visitNode_program [OF W])
  from a w b show ?case by blast
qed

lemma strictShape_index:
  "strictShape sh \<Longrightarrow> i < length sh \<Longrightarrow> sh ! i \<Longrightarrow> 0 < i \<and> \<not> sh ! (i - 1)"
proof (induction sh arbitrary: i rule: strictShape.induct)
  case 1
  then show ?case by simp
next
  case (2 rest)
  then show ?case by simp
next
  case (3 rest)
  show ?case
  proof (cases i)
    case 0
    with 3 show ?thesis by simp
  next
    case (Suc j)
    show ?thesis
    proof (cases j)
      case 0
      with Suc show ?thesis by simp
    next
      case (Suc k)
      with 3 \<open>i = Suc j\<close> have "0 < k \<and> \<not> rest ! (k - 1)" by simp
      with Suc \<open>i = Suc j\<close> show ?thesis by (cases k) simp_all
    qed
  qed
next
  case 4
  then show ?case by (cases i) simp_all
next
  case (5 v)
  show ?case
  proof (cases i)
    case 0
    with 5 show ?thesis by simp
  next
    case (Suc j)
    with 5 have "0 < j \<and> \<not> (False # v) ! (j - 1)" by simp
    with Suc show ?thesis by (cases j) simp_all
  qed
qed

lemma strict_markersBelowFrames:
  "strictShape (shape stack) \<Longrightarrow> markersBelowFrames stack"
  unfolding markersBelowFrames_def
proof (intro allI impI)
  fix i assume s: "strictShape (shape stack)" and i: "i < length stack"
    and m: "isMarker (stack ! i)"
  have "shape stack ! i" using i m by (simp add: shape_def)
  with strictShape_index [OF s, of i] i
  show "0 < i \<and> \<not> isMarker (stack ! (i - 1))"
    by (auto simp: shape_def)
qed

lemma loose_markersBelowFramesOrOnTop:
  assumes "loose stack"
  shows "markersBelowFramesOrOnTop stack"
proof (cases stack)
  case Nil
  then show ?thesis by (simp add: markersBelowFramesOrOnTop_def)
next
  case (Cons x rest)
  show ?thesis
  proof (cases x)
    case (BlockParams b)
    with assms Cons have "strictShape (shape stack)" by (simp add: loose_def)
    then have "markersBelowFrames stack" by (rule strict_markersBelowFrames)
    then show ?thesis by (auto simp: markersBelowFrames_def markersBelowFramesOrOnTop_def)
  next
    case (Marker m)
    with assms Cons have r: "markersBelowFrames rest"
      by (simp add: loose_def strict_markersBelowFrames)
    show ?thesis
      unfolding markersBelowFramesOrOnTop_def
    proof (intro allI impI)
      fix i assume i: "i < length stack" and mk: "isMarker (stack ! i)"
      show "i = 0 \<or> \<not> isMarker (stack ! (i - 1))"
      proof (cases i)
        case 0
        then show ?thesis by simp
      next
        case (Suc j)
        with i mk Cons have "j < length rest" "isMarker (rest ! j)" by simp_all
        with r have "0 < j \<and> \<not> isMarker (rest ! (j - 1))"
          by (simp add: markersBelowFrames_def)
        with Suc Cons show ?thesis by (cases j) simp_all
      qed
    qed
  qed
qed

lemma traverse_stack_invariant:
  assumes "wellFormed template"
  shows "(\<forall>stack \<in> set (fst (traverse fuel r template)). markersBelowFramesOrOnTop stack)
       \<and> (\<forall>n st. snd (traverse fuel r template) = Finished n st \<longrightarrow> scopeStack st = [])"
proof -
  have "visitsWell (walk fuel r)" using walk_invariants [of fuel r] by simp
  moreover have "strictShape (shape (scopeStack empty_state))"
    by (simp add: empty_state_def)
  ultimately have "walkOK loose
      (\<lambda>_ st'. shape (scopeStack st') = shape (scopeStack empty_state))
      (walk fuel r None template empty_state)"
    using assms unfolding visitsWell_def by blast
  then show ?thesis
    by (auto simp: walkOK_def traverse_def empty_state_def shape_def
        intro: loose_markersBelowFramesOrOnTop)
qed

lemma block_template_trace:
  "fst (traverse 5 (example_resolver (toggles True False False) False) block_template) =
     [[BlockParams []],
      [Marker hello_marker, BlockParams []],
      [Marker hello_marker, BlockParams []],
      [Marker hello_marker, BlockParams []],
      [BlockParams [], Marker hello_marker, BlockParams []],
      [Marker hello_marker, BlockParams []],
      [BlockParams []], [], []]"
  by code_simp

lemma nested_finishes:
  "(case snd (traverse 7 yielding_resolver nested_template) of
      Finished n st \<Rightarrow> scopeStack st = [] \<and> length (bound st) = 3
    | _ \<Rightarrow> False)"
  by code_simp

text \<open>
  No enter hook makes a node deeper, so a bound of at least the depth of the tree is never
  reached.
\<close>

lemma depth_pos: "0 < depth node"
  by (cases node) simp_all

lemma depth_ge1 [simp]: "Suc 0 \<le> depth node"
  using depth_pos [of node] by simp

lemma listMax_le: "listMax xs \<le> k \<longleftrightarrow> (\<forall>x \<in> set xs. x \<le> k)"
  by (induction xs) auto

lemma listMax_ge: "x \<in> set xs \<Longrightarrow> x \<le> listMax xs"
  using listMax_le [of xs "listMax xs"] by simp

lemma listMax_update:
  "i < length xs \<Longrightarrow> depth y \<le> depth (xs ! i)
     \<Longrightarrow> listMax (map depth (xs[i := y])) \<le> listMax (map depth xs)"
proof (induction xs arbitrary: i)
  case Nil
  then show ?case by simp
next
  case (Cons x xs)
  show ?case
  proof (cases i)
    case 0
    with Cons.prems show ?thesis by (auto simp: le_max_iff_disj)
  next
    case (Suc n)
    with Cons.prems have "listMax (map depth (xs[n := y])) \<le> listMax (map depth xs)"
      by (intro Cons.IH) simp_all
    with Suc show ?thesis by (auto simp: le_max_iff_disj)
  qed
qed

lemma depth_builders [simp]:
  "depth (builders_path name) = Suc 0"
  "depth (builders_mustache (builders_path name)) = 2"
  by (simp_all add: builders_path_def builders_mustache_def)

lemma depth_setPath: "depth (setPath node (builders_path name)) \<le> depth node"
proof (cases node)
  case (MustacheStatement p xs h l)
  then show ?thesis
    by (simp only: setPath.simps depth.simps depth_builders Suc_le_mono)
       (intro max.mono order_refl depth_ge1)
next
  case (BlockStatement p xs h b i l)
  then show ?thesis
    by (simp only: setPath.simps depth.simps depth_builders Suc_le_mono)
       (intro max.mono order_refl depth_ge1)
next
  case (SubExpression p xs h l)
  then show ?thesis
    by (simp only: setPath.simps depth.simps depth_builders Suc_le_mono)
       (intro max.mono order_refl depth_ge1)
next
  case (ElementModifierStatement p xs h l)
  then show ?thesis
    by (simp only: setPath.simps depth.simps depth_builders Suc_le_mono)
       (intro max.mono order_refl depth_ge1)
qed simp_all

lemma depth_setParam0: "depth (setParam0 node (builders_path name)) \<le> depth node"
proof (cases node)
  case (MustacheStatement p xs h l)
  show ?thesis
  proof (cases xs)
    case (Cons a list)
    with MustacheStatement show ?thesis
      by (simp only: setParam0.simps depth.simps list.map listMax.simps depth_builders
            Suc_le_mono)
         (intro max.mono order_refl depth_ge1)
  qed (simp add: MustacheStatement)
next
  case (BlockStatement p xs h b i l)
  show ?thesis
  proof (cases xs)
    case (Cons a list)
    with BlockStatement show ?thesis
      by (simp only: setParam0.simps depth.simps list.map listMax.simps depth_builders
            Suc_le_mono)
         (intro max.mono order_refl depth_ge1)
  qed (simp add: BlockStatement)
next
  case (SubExpression p xs h l)
  show ?thesis
  proof (cases xs)
    case (Cons a list)
    with SubExpression show ?thesis
      by (simp only: setParam0.simps depth.simps list.map listMax.simps depth_builders
            Suc_le_mono)
         (intro max.mono order_refl depth_ge1)
  qed (simp add: SubExpression)
qed simp_all

lemma depth_setTag: "depth (setTag node x) \<le> depth node"
  by (cases node) simp_all

lemma depth_setValue: "depth (setValue node (builders_path name)) \<le> depth node"
  by (cases node) simp_all

lemma depth_setPairs_mustache:
  assumes "listMax (map depth ps) \<le> listMax (map depth ps0)"
  shows "depth (setPairs (MustacheStatement p xs (Hash ps0 hl) l) ps)
           \<le> depth (MustacheStatement p xs (Hash ps0 hl) l)"
proof -
  from assms
  have 1: "Suc (listMax (map depth ps)) \<le> Suc (listMax (map depth ps0))" by simp
  have 2: "max (listMax (map depth xs)) (Suc (listMax (map depth ps)))
             \<le> max (listMax (map depth xs)) (Suc (listMax (map depth ps0)))"
    by (rule max.mono [OF order_refl 1])
  have 3: "max (depth p) (max (listMax (map depth xs)) (Suc (listMax (map depth ps))))
             \<le> max (depth p) (max (listMax (map depth xs)) (Suc (listMax (map depth ps0))))"
    by (rule max.mono [OF order_refl 2])
  from 3 show ?thesis
    by (simp only: setPairs.simps depth.simps Suc_le_mono)
qed

lemma depth_setPairs_block:
  assumes "listMax (map depth ps) \<le> listMax (map depth ps0)"
  shows "depth (setPairs (BlockStatement p xs (Hash ps0 hl) b i l) ps)
           \<le> depth (BlockStatement p xs (Hash ps0 hl) b i l)"
proof -
  let ?rest = "max (depth b) (case i of None \<Rightarrow> 0 | Some ib \<Rightarrow> depth ib)"
  from assms
  have 1: "Suc (listMax (map depth ps)) \<le> Suc (listMax (map depth ps0))" by simp
  have 2: "max (Suc (listMax (map depth ps))) ?rest
             \<le> max (Suc (listMax (map depth ps0))) ?rest"
    by (rule max.mono [OF 1 order_refl])
  have 3: "max (listMax (map depth xs)) (max (Suc (listMax (map depth ps))) ?rest)
             \<le> max (listMax (map depth xs)) (max (Suc (listMax (map depth ps0))) ?rest)"
    by (rule max.mono [OF order_refl 2])
  have 4: "max (depth p)
             (max (listMax (map depth xs)) (max (Suc (listMax (map depth ps))) ?rest))
           \<le> max (depth p)
             (max (listMax (map depth xs)) (max (Suc (listMax (map depth ps0))) ?rest))"
    by (rule max.mono [OF order_refl 3])
  from 4 show ?thesis
    by (simp only: setPairs.simps depth.simps Suc_le_mono)
qed

lemma setPairs_cases:
  "(\<exists>p xs ps0 hl l. node = MustacheStatement p xs (Hash ps0 hl) l)
   \<or> (\<exists>p xs ps0 hl b i l. node = BlockStatement p xs (Hash ps0 hl) b i l)
   \<or> setPairs node ps = node"
proof (cases node)
  case (MustacheStatement p xs h l)
  show ?thesis
  proof (cases h)
    case (Hash ps0 hl)
    with MustacheStatement show ?thesis by blast
  qed (simp_all add: MustacheStatement)
next
  case (BlockStatement p xs h b i l)
  show ?thesis
  proof (cases h)
    case (Hash ps0 hl)
    with BlockStatement show ?thesis by blast
  qed (simp_all add: BlockStatement)
qed simp_all

lemma depth_setPairs:
  assumes "listMax (map depth ps) \<le> listMax (map depth (pairs (nodeHash node)))"
  shows "depth (setPairs node ps) \<le> depth node"
proof -
  consider (m) p xs ps0 hl l where "node = MustacheStatement p xs (Hash ps0 hl) l"
    | (b) p xs ps0 hl b i l where "node = BlockStatement p xs (Hash ps0 hl) b i l"
    | (o) "setPairs node ps = node"
    using setPairs_cases [of node ps] by blast
  then show ?thesis
  proof cases
    case m
    from assms have "listMax (map depth ps) \<le> listMax (map depth ps0)"
      unfolding m by (simp only: nodeHash.simps pairs.simps)
    then show ?thesis unfolding m by (rule depth_setPairs_mustache)
  next
    case b
    from assms have "listMax (map depth ps) \<le> listMax (map depth ps0)"
      unfolding b by (simp only: nodeHash.simps pairs.simps)
    then show ?thesis unfolding b by (rule depth_setPairs_block)
  next
    case o
    then show ?thesis by (simp only: order_refl)
  qed
qed

lemma emit_depth:
  assumes "emit r res setter node st = Inr (n, st')"
    and "\<And>name. depth (setter node (builders_path name)) \<le> depth node"
  shows "depth n \<le> depth node"
  using assms
  by (auto simp: emit_def split: option.splits Resolution.splits sum.splits)

lemma handleDynamicComponentArguments_depth:
  "handleDynamicComponentArguments r c names attrs st = Inr (as, st')
     \<Longrightarrow> listMax (map depth as) \<le> listMax (map depth attrs)"
proof (induction r c names attrs st rule: handleDynamicComponentArguments.induct)
  case (1 r componentName attributes st)
  then show ?case by simp
next
  case (2 r componentName name names attributes st)
  show ?case
  proof (cases "findIndex (attrMatches name) attributes")
    case None
    with 2 show ?thesis by simp
  next
    case (Some i)
    obtain res st1 where h: "handleComponentHelper r (attrValue (attributes ! i))
                               (Some (componentName, name)) st = (res, st1)"
      by (cases "handleComponentHelper r (attrValue (attributes ! i))
                   (Some (componentName, name)) st") auto
    from "2.prems" Some h obtain attr' st2 where
        e: "emit r res setValue (attributes ! i) st1 = Inr (attr', st2)"
      and rest: "handleDynamicComponentArguments r componentName names
                   (attributes[i := attr']) st2 = Inr (as, st')"
      by (auto split: sum.splits)
    have "depth attr' \<le> depth (attributes ! i)"
      using emit_depth [OF e] depth_setValue by blast
    then have "listMax (map depth (attributes[i := attr'])) \<le> listMax (map depth attributes)"
      using findIndex_less [OF Some] by (simp add: listMax_update)
    with "2.IH"(2) [OF Some refl h [symmetric] refl e refl rest] show ?thesis by simp
  qed
qed

lemma MustacheStatement_enter_depth:
  assumes "MustacheStatement_enter r parent node st = Inr (n, st')"
  shows "depth n \<le> depth node"
proof (cases node)
  case (MustacheStatement path params hash l)
  show ?thesis
  proof (cases path)
    case (PathExpression orig this data parts pl)
    note [simp] = MustacheStatement PathExpression
    consider (skip) "rootInScope parts (scopeStack st) \<or> this \<or> length parts > 1 \<or> prefix ''@'' orig"
      | (cmp) "\<not> (rootInScope parts (scopeStack st) \<or> this \<or> length parts > 1 \<or> prefix ''@'' orig)"
               "orig = ''component'' \<and> params \<noteq> []"
      | (hlp) "\<not> (rootInScope parts (scopeStack st) \<or> this \<or> length parts > 1 \<or> prefix ''@'' orig)"
               "\<not> (orig = ''component'' \<and> params \<noteq> [])" "orig = ''helper'' \<and> params \<noteq> []"
      | (attr) "\<not> (rootInScope parts (scopeStack st) \<or> this \<or> length parts > 1 \<or> prefix ''@'' orig)"
               "\<not> (orig = ''component'' \<and> params \<noteq> [])" "\<not> (orig = ''helper'' \<and> params \<noteq> [])"
               "isAttrNode parent"
      | (amb) "\<not> (rootInScope parts (scopeStack st) \<or> this \<or> length parts > 1 \<or> prefix ''@'' orig)"
               "\<not> (orig = ''component'' \<and> params \<noteq> [])" "\<not> (orig = ''helper'' \<and> params \<noteq> [])"
               "\<not> isAttrNode parent"
      by blast
    then show ?thesis
    proof cases
      case skip
      with assms have "n = node"
        by (auto simp: MustacheStatement_enter_def split: if_splits)
      then show ?thesis by (simp only: order_refl)
    next
      case cmp
      obtain res st1 where h: "handleComponentHelper r (params ! 0) None st = (res, st1)"
        by (cases "handleComponentHelper r (params ! 0) None st") auto
      have "emit r res setParam0 node st1 = Inr (n, st')"
        using assms cmp h by (auto simp: MustacheStatement_enter_def)
      then show ?thesis using emit_depth depth_setParam0 by blast
    next
      case hlp
      with assms have "emit r (handleDynamicHelper r (params ! 0)) setParam0 node st = Inr (n, st')"
        by (auto simp: MustacheStatement_enter_def)
      then show ?thesis using emit_depth depth_setParam0 by blast
    next
      case attr
      with assms have "emit r (targetHelper r orig) setPath node st = Inr (n, st')"
        by (auto simp: MustacheStatement_enter_def)
      then show ?thesis using emit_depth depth_setPath by blast
    next
      case amb
      from assms amb obtain res st1 node1 st2 where
          e: "emit r res setPath node st1 = Inr (node1, st2)"
        and d: "(case res of
                   Some (Component c) \<Rightarrow>
                     (case handleDynamicComponentArguments r (original (nodePath node1))
                             (argumentsAreComponents c) (pairs hash) st2 of
                        Inl e \<Rightarrow> Inl e
                      | Inr (ps', st3) \<Rightarrow> Inr (setPairs node1 ps', st3))
                 | _ \<Rightarrow> Inr (node1, st2)) = Inr (n, st')"
        by (auto simp: MustacheStatement_enter_def split: sum.splits)
      have p1: "depth node1 \<le> depth node" using emit_depth [OF e] depth_setPath by blast
      have nh: "nodeHash node1 = hash"
        using e by (auto simp: emit_def split: option.splits Resolution.splits sum.splits)
      from d have "depth n \<le> depth node1"
        by (auto simp: nh split: option.splits Resolution.splits sum.splits
            intro!: depth_setPairs dest: handleDynamicComponentArguments_depth)
      with p1 show ?thesis by simp
    qed
  qed (use assms MustacheStatement in \<open>auto simp: MustacheStatement_enter_def\<close>)
qed (use assms in \<open>auto simp: MustacheStatement_enter_def\<close>)

lemma SubExpression_visit_depth:
  assumes "SubExpression_visit r node st = Inr (n, st')"
  shows "depth n \<le> depth node"
proof (cases node)
  case (SubExpression path params hash l)
  show ?thesis
  proof (cases path)
    case (PathExpression orig this data parts pl)
    note [simp] = SubExpression PathExpression
    show ?thesis
    proof (cases "\<not> this \<and> \<not> rootInScope parts (scopeStack st) \<and> orig = ''component'' \<and> params \<noteq> []")
      case True
      obtain res st1 where h: "handleComponentHelper r (params ! 0) None st = (res, st1)"
        by (cases "handleComponentHelper r (params ! 0) None st") auto
      have "emit r res setParam0 node st1 = Inr (n, st')"
        using assms True h by (auto simp: SubExpression_visit_def)
      then show ?thesis using emit_depth depth_setParam0 by blast
    next
      case False
      with assms consider "n = node"
        | res where "emit r res setParam0 node st = Inr (n, st')"
        | res where "emit r res setPath node st = Inr (n, st')"
        by (auto simp: SubExpression_visit_def split: if_splits)
      then show ?thesis
        using emit_depth depth_setParam0 depth_setPath
        by cases (simp, blast, blast)
    qed
  qed (use assms SubExpression in \<open>auto simp: SubExpression_visit_def\<close>)
qed (use assms in \<open>auto simp: SubExpression_visit_def\<close>)

lemma ElementModifierStatement_visit_depth:
  assumes "ElementModifierStatement_visit r node st = Inr (n, st')"
  shows "depth n \<le> depth node"
proof -
  from assms consider "n = node" | res where "emit r res setPath node st = Inr (n, st')"
    by (auto simp: ElementModifierStatement_visit_def split: Node.splits if_splits)
  then show ?thesis
    using emit_depth depth_setPath by cases (simp, blast)
qed

lemma BlockStatement_visit_depth:
  assumes "BlockStatement_visit r node st = Inr (n, st')"
  shows "depth n \<le> depth node"
proof (cases node)
  case (BlockStatement path params hash program inverseBlock l)
  show ?thesis
  proof (cases path)
    case (PathExpression orig this data parts pl)
    note [simp] = BlockStatement PathExpression
    show ?thesis
    proof (cases "\<not> rootInScope parts (scopeStack st) \<and> \<not> this \<and> \<not> length parts > 1
                  \<and> orig = ''component'' \<and> params \<noteq> []")
      case True
      obtain res st1 where h: "handleComponentHelper r (params ! 0) None st = (res, st1)"
        by (cases "handleComponentHelper r (params ! 0) None st") auto
      have "emit r res setParam0 node st1 = Inr (n, st')"
        using assms True h by (auto simp: BlockStatement_visit_def)
      then show ?thesis using emit_depth depth_setParam0 by blast
    next
      case False
      with assms consider "n = node"
        | res s1 where "emit r res setPath node st = Inr (n, s1)"
        by (auto simp: BlockStatement_visit_def Let_def
            split: if_splits sum.splits option.splits)
      then show ?thesis
        using emit_depth depth_setPath by cases (simp, blast)
    qed
  qed (use assms BlockStatement in \<open>auto simp: BlockStatement_visit_def\<close>)
qed (use assms in \<open>auto simp: BlockStatement_visit_def\<close>)

lemma ElementNode_enter_depth:
  assumes "ElementNode_enter r node st = Inr (n, st')"
  shows "depth n \<le> depth node"
proof -
  from assms consider "n = node" | res s1 where "emit r res setTag node st = Inr (n, s1)"
    by (auto simp: ElementNode_enter_def Let_def
        split: Node.splits if_splits sum.splits option.splits list.splits)
  then show ?thesis
    using emit_depth depth_setTag by cases (simp, blast)
qed

lemma enterNode_depth:
  assumes "enterNode r parent node st = Inr (n, st')"
  shows "depth n \<le> depth node"
  using assms
  by (cases node)
     (auto simp: enterNode_def
       dest: MustacheStatement_enter_depth SubExpression_visit_depth
             ElementModifierStatement_visit_depth BlockStatement_visit_depth
             ElementNode_enter_depth)

lemma finishes_return [simp]: "finishes (seen, Finished x st)" "finishes (seen, Thrown e)"
  by (simp_all add: finishes_def)

lemma finishes_andThen:
  assumes "finishes w" and "\<And>seen x st. w = (seen, Finished x st) \<Longrightarrow> finishes (f x st)"
  shows "finishes (andThen w f)"
proof (cases w)
  case (Pair seen out)
  show ?thesis
  proof (cases out)
    case (Finished x st)
    obtain seen' out' where f: "f x st = (seen', out')" by (cases "f x st")
    with assms(2) [of seen x st] Pair Finished have "out' \<noteq> OutOfFuel" by (simp add: finishes_def)
    with Pair Finished f show ?thesis by (simp add: andThen_def finishes_def)
  qed (use assms Pair in \<open>simp_all add: andThen_def finishes_def\<close>)
qed

lemma finishes_observed [simp]: "finishes (observed res)"
  by (auto simp: observed_def finishes_def split: sum.splits)

lemma finishes_popObserved [simp]: "finishes (popObserved r st)"
  by (auto simp: popObserved_def finishes_def split: sum.splits)

lemma finishes_visitArray:
  "(\<And>x st. x \<in> set xs \<Longrightarrow> finishes (visit x st)) \<Longrightarrow> finishes (visitArray visit xs st)"
proof (induction xs arbitrary: st)
  case Nil
  then show ?case by simp
next
  case (Cons x xs)
  show ?case
    unfolding visitArray.simps
    by (intro finishes_andThen finishes_return Cons.IH Cons.prems) simp_all
qed

lemma finishes_visitOptional:
  "(\<And>x st. child = Some x \<Longrightarrow> finishes (visit x st)) \<Longrightarrow> finishes (visitOptional visit child st)"
  by (cases child) (auto simp: visitOptional_def intro!: finishes_andThen)

lemma finishes_exitNode [simp]: "finishes (exitNode r cell node st)"
  by (cases node)
     (auto simp: exitNode_def intro!: finishes_andThen split: option.splits)

lemma depth_child:
  "x \<in> set xs \<Longrightarrow> listMax (map depth xs) \<le> k \<Longrightarrow> depth x \<le> k"
  by (simp add: listMax_le)

lemma finishes_visitKeys:
  assumes "\<And>x st. depth x < depth node \<Longrightarrow> finishes (visit x st)"
  shows "finishes (visitKeys visit cell node st)"
proof -
  have arr: "finishes (visitArray visit xs s)" if "listMax (map depth xs) < depth node" for xs s
  proof (rule finishes_visitArray)
    fix x s' assume "x \<in> set xs"
    then have "depth x \<le> listMax (map depth xs)" by (simp add: listMax_ge)
    with that show "finishes (visit x s')" by (intro assms) simp
  qed
  show ?thesis
  proof (cases node)
    case (Template bps body)
    then show ?thesis
      by (auto simp: visitKeys_def intro!: finishes_andThen arr)
  next
    case (Block bps body)
    then show ?thesis
      by (auto simp: visitKeys_def intro!: finishes_andThen arr)
  next
    case (MustacheStatement p xs h l)
    then show ?thesis
      by (auto simp: visitKeys_def less_Suc_eq_le intro!: finishes_andThen arr assms)
  next
    case (BlockStatement p xs h b i l)
    then show ?thesis
      by (auto simp: visitKeys_def less_Suc_eq_le
          intro!: finishes_andThen arr assms finishes_visitOptional)
  next
    case (ElementModifierStatement p xs h l)
    then show ?thesis
      by (auto simp: visitKeys_def less_Suc_eq_le intro!: finishes_andThen arr assms)
  next
    case (ElementNode tag attrs mods children comments bps l)
    then show ?thesis
      by (auto simp: visitKeys_def less_Suc_eq_le intro!: finishes_andThen arr)
  next
    case (AttrNode name v l)
    then show ?thesis
      by (auto simp: visitKeys_def intro!: finishes_andThen assms)
  next
    case (ConcatStatement parts l)
    then show ?thesis
      by (auto simp: visitKeys_def intro!: finishes_andThen arr)
  next
    case (SubExpression p xs h l)
    then show ?thesis
      by (auto simp: visitKeys_def less_Suc_eq_le intro!: finishes_andThen arr assms)
  next
    case (Hash ps l)
    then show ?thesis
      by (auto simp: visitKeys_def intro!: finishes_andThen arr)
  next
    case (HashPair key v l)
    then show ?thesis
      by (auto simp: visitKeys_def intro!: finishes_andThen assms)
  qed (simp_all add: visitKeys_def)
qed

lemma walk_finishes:
  "depth node \<le> fuel \<Longrightarrow> finishes (walk fuel r parent node st)"
proof (induction fuel arbitrary: node parent st)
  case 0
  then show ?case using depth_pos [of node] by simp
next
  case (Suc fuel)
  show ?case
    unfolding walk.simps visitNode_def
  proof (rule finishes_andThen)
    show "finishes (observed (enterNode r parent node st))" by simp
  next
    fix seen node1 st1
    assume "observed (enterNode r parent node st) = (seen, Finished node1 st1)"
    then have "enterNode r parent node st = Inr (node1, st1)"
      by (auto simp: observed_def split: sum.splits)
    then have "depth node1 \<le> depth node" by (rule enterNode_depth)
    with Suc.prems have d: "depth node1 \<le> Suc fuel" by simp
    have "finishes (visitKeys (walk fuel r (Some node1)) cell node1 st1)" for cell
    proof (rule finishes_visitKeys)
      fix x s assume "depth x < depth node1"
      with d have "depth x \<le> fuel" by simp
      then show "finishes (walk fuel r (Some node1) x s)" by (rule Suc.IH)
    qed
    then show "finishes (andThen (visitKeys (walk fuel r (Some node1))
                (if length (captured st) < length (captured st1)
                 then Some (length (captured st)) else None) node1 st1)
            (\<lambda>node2 st2. exitNode r
                (if length (captured st) < length (captured st1)
                 then Some (length (captured st)) else None) node2 st2))"
      by (intro finishes_andThen) simp_all
  qed
qed

lemma traverse_finishes:
  "depth template \<le> fuel \<Longrightarrow> snd (traverse fuel r template) \<noteq> OutOfFuel"
  using walk_finishes [of template fuel r None empty_state]
  by (simp add: traverse_def finishes_def)

text \<open>
  Claim C8, amended. At every point of the walk of a well-formed template, every marker on
  the scope stack is either the first entry or directly below a parameter frame; when the
  walk finishes the stack is empty again, every marker having been removed by the
  \<^verbatim>\<open>pop\<close> that removed the frame above it; and with a bound of at least the depth of the
  template the walk ends, by finishing or by an error thrown.
\<close>

theorem markers_below_frames_or_on_top:
  assumes "wellFormed template"
  shows "(\<forall>stack \<in> set (fst (traverse fuel r template)). markersBelowFramesOrOnTop stack)
       \<and> (\<forall>n st. snd (traverse fuel r template) = Finished n st \<longrightarrow> scopeStack st = [])
       \<and> (depth template \<le> fuel \<longrightarrow> snd (traverse fuel r template) \<noteq> OutOfFuel)"
  using traverse_stack_invariant [OF assms, of fuel r] traverse_finishes [of template fuel r]
  by blast

lemma block_template_not_thrown:
  "(case snd (traverse 5 (example_resolver (toggles True False False) False) block_template) of
      Thrown e \<Rightarrow> False
    | _ \<Rightarrow> True)"
  by code_simp

theorem markers_below_frames_or_on_top_witness:
  "wellFormed block_template \<and> depth block_template \<le> 5
   \<and> list_all markersBelowFramesOrOnTop
         (fst (traverse 5 (example_resolver (toggles True False False) False) block_template))
   \<and> [BlockParams [], Marker hello_marker, BlockParams []]
       \<in> set (fst (traverse 5 (example_resolver (toggles True False False) False)
                       block_template))
   \<and> (\<exists>n st. snd (traverse 5 (example_resolver (toggles True False False) False)
                      block_template) = Finished n st \<and> scopeStack st = [])"
proof -
  let ?w = "traverse 5 (example_resolver (toggles True False False) False) block_template"
  have w: "wellFormed block_template" by (simp add: block_template_def)
  have d: "depth block_template \<le> 5" by (simp add: block_template_def)
  note t = markers_below_frames_or_on_top
             [OF w, of 5 "example_resolver (toggles True False False) False"]
  from t d have "snd ?w \<noteq> OutOfFuel" by blast
  with block_template_not_thrown obtain n st where f: "snd ?w = Finished n st"
    by (cases "snd ?w") auto
  with t have "scopeStack st = []" by blast
  moreover from t have "list_all markersBelowFramesOrOnTop (fst ?w)"
    by (simp add: list_all_iff)
  ultimately show ?thesis using f w d by (simp add: block_template_trace)
qed

text \<open>
  Claim C8, as stated: every marker on the stack is at index \<open>i + 1\<close> of a parameter frame
  at index \<open>i\<close>. In the walk of \<^verbatim>\<open>{{#hello-world}}{{/hello-world}}\<close> the marker is the first
  entry from the visit of the block statement until the block is entered.
\<close>

theorem marker_on_top_counterexample:
  "[Marker hello_marker, BlockParams []]
     \<in> set (fst (traverse 5 (example_resolver (toggles True False False) False) block_template))
   \<and> \<not> markersBelowFrames [Marker hello_marker, BlockParams []]"
proof -
  have "\<not> markersBelowFrames [Marker hello_marker, BlockParams []]"
    by (auto simp: markersBelowFrames_def)
  then show ?thesis by (simp add: block_template_trace)
qed

text \<open>
  The stack \<open>shadowing_stack\<close> is met in the walk of the template, which ends with the
  call \<^verbatim>\<open>{{component x}}\<close> as it was written.
\<close>

lemma shadowing_stack_reached:
  "shadowing_stack \<in> set (fst (traverse 7 yielding_resolver shadowing_template))
   \<and> (case snd (traverse 7 yielding_resolver shadowing_template) of
         Finished n st \<Rightarrow>
           n = Template []
                 [ElementNode ''HelloWorld_'' [] []
                    [BlockStatement
                       (PathExpression ''each'' False False [''each''] ((1, 24), (1, 28)))
                       [PathExpression ''this.items'' True False [''items'']
                          ((1, 29), (1, 39))]
                       (Hash [] ((1, 39), (1, 39)))
                       (Block [''x''] [component_x])
                       None ((1, 21), (1, 68))]
                    [] [''x''] ((1, 0), (1, 81))]
       | _ \<Rightarrow> False)"
  by code_simp

end
